theory Spec2Isabelle
  imports Complex_Main "HOL-Library.Word"
begin

section \<open>Frames\<close>

text \<open>
  An \<open>ImageData\<close> is what \<open>ctx.getImageData\<close> returns: a width, a height and a
  \<open>Uint8ClampedArray\<close> of RGBA bytes, four per pixel, row by row. JavaScript numbers
  are modelled by exact integers and reals.
\<close>

type_synonym byte = "8 word"

record ImageData =
  img_width :: nat
  img_height :: nat
  img_data :: "byte list"


section \<open>Frame Scaler: \<open>getScaledDimensions\<close> (src/hooks/screenshare.tsx)\<close>

definition getScaledDimensions :: "nat \<Rightarrow> nat \<Rightarrow> nat \<Rightarrow> nat \<times> nat" where
  "getScaledDimensions width height maxPixels =
     (let currentPixels = width * height in
      if currentPixels > maxPixels then
        (let scaleFactor = sqrt (real maxPixels / real currentPixels) in
         (nat \<lfloor>real width * scaleFactor\<rfloor>, nat \<lfloor>real height * scaleFactor\<rfloor>))
      else (width, height))"

section \<open>Frame Differ: \<open>calculateImageDifference\<close> (src/hooks/screenshare.tsx)\<close>

text \<open>
  Reading a typed array past its end gives \<open>undefined\<close>; arithmetic on it gives
  \<open>NaN\<close>, and every comparison with \<open>NaN\<close> is false. \<open>None\<close> stands for both.
\<close>

definition element :: "byte list \<Rightarrow> nat \<Rightarrow> int option" where
  "element d i = (if i < length d then Some (uint (d ! i)) else None)"

definition absDiff :: "int option \<Rightarrow> int option \<Rightarrow> int option" where
  "absDiff a b = (case (a, b) of (Some u, Some v) \<Rightarrow> Some \<bar>u - v\<bar> | _ \<Rightarrow> None)"

definition exceeds :: "int option \<Rightarrow> int \<Rightarrow> bool" where
  "exceeds d t = (case d of Some v \<Rightarrow> v > t | None \<Rightarrow> False)"

definition pixelThreshold :: int where
  "pixelThreshold = 10"

text \<open>The body of the \<open>for\<close> loop at byte offset \<open>i\<close>: the test of the \<open>if\<close>.\<close>

definition pixelChanged :: "byte list \<Rightarrow> byte list \<Rightarrow> nat \<Rightarrow> bool" where
  "pixelChanged data1 data2 i =
     (let rDiff = absDiff (element data1 i) (element data2 i);
          gDiff = absDiff (element data1 (i + 1)) (element data2 (i + 1));
          bDiff = absDiff (element data1 (i + 2)) (element data2 (i + 2))
      in exceeds rDiff pixelThreshold \<or> exceeds gDiff pixelThreshold \<or>
         exceeds bDiff pixelThreshold)"

text \<open>\<open>for (let i = 0; i < data1.length; i += 4)\<close>, from offset \<open>i\<close> on.\<close>

function countDifferentPixels :: "byte list \<Rightarrow> byte list \<Rightarrow> nat \<Rightarrow> nat \<Rightarrow> nat" where
  "countDifferentPixels data1 data2 i differentPixels =
     (if i < length data1
      then countDifferentPixels data1 data2 (i + 4)
             (if pixelChanged data1 data2 i then differentPixels + 1 else differentPixels)
      else differentPixels)"
  by pat_completeness auto
termination
  by (relation "measure (\<lambda>(d1, d2, i, n). length d1 - i)") auto

declare countDifferentPixels.simps [simp del]

definition calculateImageDifference :: "ImageData \<Rightarrow> ImageData \<Rightarrow> real" where
  "calculateImageDifference imageData1 imageData2 =
     (let data1 = img_data imageData1;
          data2 = img_data imageData2;
          differentPixels = countDifferentPixels data1 data2 0 0;
          totalPixels = img_width imageData1 * img_height imageData1
      in (real differentPixels / real totalPixels) * 100)"

subsection \<open>The differ as the specification words it\<close>






section \<open>Masking Engine (src/hooks/screenshare.tsx)\<close>

text \<open>
  A canvas is modelled by its bitmap, an \<open>ImageData\<close>. What the browser itself does is
  a parameter of the model: the screen size \<open>window.screen\<close> reports, and
  \<open>ctx.fillRect\<close> with a black fill style. \<open>toDataURL\<close> is not modelled: where the
  source passes on the JPEG encoding of a canvas, the model passes on the canvas.
\<close>

record PipDetails =
  pip_x :: real
  pip_y :: real
  pip_width :: real
  pip_height :: real
  isActive :: bool
  isVisible :: bool

record Browser =
  screenWidth :: real
  screenHeight :: real
  fillRect :: "real \<Rightarrow> real \<Rightarrow> real \<Rightarrow> real \<Rightarrow> ImageData \<Rightarrow> ImageData"

definition maskPipWindow :: "Browser \<Rightarrow> ImageData \<Rightarrow> PipDetails \<Rightarrow> nat \<Rightarrow> nat \<Rightarrow> ImageData" where
  "maskPipWindow br ctx pipDetails canvasWidth canvasHeight =
     (if \<not> isActive pipDetails \<or> \<not> isVisible pipDetails then ctx
      else
        (let scaleX = real canvasWidth / screenWidth br;
             scaleY = real canvasHeight / screenHeight br
         in fillRect br (pip_x pipDetails * scaleX) (pip_y pipDetails * scaleY)
              (pip_width pipDetails * scaleX) (pip_height pipDetails * scaleY) ctx))"

text \<open>
  \<open>ctx.getImageData(0, 0, w, h)\<close> always returns \<open>4 * w * h\<close> bytes: the canvas's
  pixels, transparent black where the canvas has none. (It throws when \<open>w\<close> or \<open>h\<close>
  is 0; the callers below model that.)
\<close>

definition getImageData :: "ImageData \<Rightarrow> nat \<Rightarrow> nat \<Rightarrow> ImageData" where
  "getImageData ctx w h =
     \<lparr>img_width = w, img_height = h,
      img_data = take (4 * (w * h)) (img_data ctx) @
                 replicate (4 * (w * h) - length (img_data ctx)) 0\<rparr>"

text \<open>
  The rectangle \<open>detectAndMaskPopup\<close> computes, as \<open>(startX, endX, startY, endY)\<close>.
  All four are non-negative, so they are naturals; \<open>0.3\<close> and \<open>0.85\<close> are taken as
  the exact rationals.
\<close>

definition bannerRect :: "nat \<Rightarrow> nat \<Rightarrow> nat \<times> nat \<times> nat \<times> nat" where
  "bannerRect width height =
     (let maskWidth = nat \<lfloor>real width * (3 / 10)\<rfloor>;
          maskHeight = 100;
          maskX = nat \<lfloor>(real width - real maskWidth) / 2\<rfloor>;
          maskY = nat \<lfloor>real height * (85 / 100)\<rfloor>;
          startX = max 0 maskX;
          endX = min width (maskX + maskWidth);
          startY = max 0 maskY;
          endY = min height (startY + maskHeight)
      in (startX, endX, startY, endY))"

text \<open>
  The three assignments of the inner loop body. A write past the end of a typed
  array is ignored, as \<open>list_update\<close> ignores it.
\<close>

definition blackOut :: "byte list \<Rightarrow> nat \<Rightarrow> byte list" where
  "blackOut d idx = d[idx := 0, idx + 1 := 0, idx + 2 := 0]"

definition detectAndMaskPopup :: "byte list \<Rightarrow> nat \<Rightarrow> nat \<Rightarrow> byte list" where
  "detectAndMaskPopup d width height =
     (case bannerRect width height of (startX, endX, startY, endY) \<Rightarrow>
        foldl (\<lambda>d y. foldl (\<lambda>d x. blackOut d ((y * width + x) * 4)) d [startX..<endX])
          d [startY..<endY])"



section \<open>Change-Detection Loop (src/hooks/screenshare.tsx)\<close>

text \<open>
  The loop is driven by timeouts. The model has no clock: a pending timeout is a value
  that says which callback it will run, and an event says that it fires. A
  \<open>Sample\<close> is what the browser supplies at the instant a callback runs: the video's
  size, what \<open>drawImage\<close> paints of it on a canvas of a given size, what
  \<open>pipDetailsGetter\<close> returns, and whether each \<open>getContext("2d")\<close> call succeeds.
\<close>

record ChangeDetectionOptions =
  threshold :: real
  checkIntervalMs :: nat
  scaleFactor :: real
  captureDelayMs :: nat

definition defaultOptions :: ChangeDetectionOptions where
  "defaultOptions =
     \<lparr>threshold = 1, checkIntervalMs = 200, scaleFactor = 1 / 10, captureDelayMs = 100\<rparr>"

definition imageSizeForChangeDetection :: nat where
  "imageSizeForChangeDetection = 800000"

record Sample =
  videoWidth :: nat
  videoHeight :: nat
  drawImage :: "nat \<Rightarrow> nat \<Rightarrow> byte list"
  pipDetails :: "PipDetails option"
  hasCtx :: bool
  hasNonScaledCtx :: bool
  hasResetCtx :: bool

text \<open>
  The pending \<open>changeDetectionTimer\<close>: either \<open>runDetection\<close>, or the capture callback
  with the \<open>width\<close>, \<open>height\<close> and \<open>pipDetails\<close> of the tick that armed it.
\<close>

datatype Timer = RunDetection | CaptureAfterChange nat nat "PipDetails option"

record ScreenShare =
  hasStream :: bool
  changeDetectionEnabled :: bool
  isChangeDetectionPaused :: bool
  isAnalyzingScreenChange :: bool
  changeDetectionTimer :: "Timer option"
  previousImageData :: "ImageData option"
  temporaryPauseTimer :: "nat option"
  hiddenVideos :: nat
  options :: ChangeDetectionOptions
  onChangeCalls :: "(ImageData \<times> ImageData option) list"

text \<open>
  A canvas of size \<open>w \<times> h\<close> after \<open>drawImage(video, 0, 0, w, h)\<close> and, when the
  getter returned details, \<open>maskPipWindow\<close>.
\<close>

definition drawAndMaskPip :: "Browser \<Rightarrow> Sample \<Rightarrow> PipDetails option \<Rightarrow> nat \<Rightarrow> nat \<Rightarrow> ImageData" where
  "drawAndMaskPip br smp pip w h =
     (let ctx = \<lparr>img_width = w, img_height = h, img_data = drawImage smp w h\<rparr>
      in case pip of None \<Rightarrow> ctx | Some p \<Rightarrow> maskPipWindow br ctx p w h)"

text \<open>\<open>getImageData\<close> of that canvas, then \<open>detectAndMaskPopup\<close> on its data.\<close>

definition maskedFrame :: "Browser \<Rightarrow> Sample \<Rightarrow> PipDetails option \<Rightarrow> nat \<Rightarrow> nat \<Rightarrow> ImageData" where
  "maskedFrame br smp pip w h =
     (let imageData = getImageData (drawAndMaskPip br smp pip w h) w h
      in imageData\<lparr>img_data := detectAndMaskPopup (img_data imageData) w h\<rparr>)"

text \<open>The analysis frame of a polling tick: \<open>currentImageData\<close> after both masks.\<close>

definition analysisFrame :: "Browser \<Rightarrow> ChangeDetectionOptions \<Rightarrow> Sample \<Rightarrow> ImageData" where
  "analysisFrame br opts smp =
     (let width = nat \<lfloor>real (videoWidth smp) * scaleFactor opts\<rfloor>;
          height = nat \<lfloor>real (videoHeight smp) * scaleFactor opts\<rfloor>
      in maskedFrame br smp (pipDetails smp) width height)"

text \<open>
  \<open>runDetection\<close>, run by a timeout that has fired (so no timeout is pending when it
  starts). When \<open>width\<close> or \<open>height\<close> is 0, \<open>getImageData\<close> throws: the callback ends
  there, with nothing re-armed.
\<close>

definition runDetection :: "Browser \<Rightarrow> Sample \<Rightarrow> ScreenShare \<Rightarrow> ScreenShare" where
  "runDetection br smp s =
     (if \<not> changeDetectionEnabled s then s
      else if isChangeDetectionPaused s then s\<lparr>changeDetectionTimer := Some RunDetection\<rparr>
      else
        (let width = nat \<lfloor>real (videoWidth smp) * scaleFactor (options s)\<rfloor>;
             height = nat \<lfloor>real (videoHeight smp) * scaleFactor (options s)\<rfloor>
         in if \<not> hasCtx smp then s\<lparr>changeDetectionTimer := Some RunDetection\<rparr>
            else if width = 0 \<or> height = 0 then s
            else
              (let currentImageData = analysisFrame br (options s) smp;
                   changeDetected =
                     (case previousImageData s of
                        None \<Rightarrow> False
                      | Some prev \<Rightarrow>
                          calculateImageDifference prev currentImageData
                            \<ge> threshold (options s))
               in if changeDetected
                  then s\<lparr>isAnalyzingScreenChange := True,
                         changeDetectionTimer :=
                           Some (CaptureAfterChange width height (pipDetails smp))\<rparr>
                  else s\<lparr>previousImageData := Some currentImageData,
                         changeDetectionTimer := Some RunDetection\<rparr>)))"

text \<open>
  The frames the capture callback hands to \<open>callback\<close>: the confirmation frame, scaled
  to \<open>imageSizeForChangeDetection\<close> and masked, and the full-resolution frame, which is
  the canvas as \<open>drawImage\<close> left it (\<open>None\<close> is the empty data URL of the source).
\<close>

definition confirmationFrame :: "Browser \<Rightarrow> Sample \<Rightarrow> ImageData" where
  "confirmationFrame br smp =
     (case getScaledDimensions (videoWidth smp) (videoHeight smp) imageSizeForChangeDetection
      of (captureWidth, captureHeight) \<Rightarrow>
        maskedFrame br smp (pipDetails smp) captureWidth captureHeight)"

definition archivalFrame :: "Sample \<Rightarrow> ImageData option" where
  "archivalFrame smp =
     (if hasNonScaledCtx smp
      then Some \<lparr>img_width = videoWidth smp, img_height = videoHeight smp,
                 img_data = drawImage smp (videoWidth smp) (videoHeight smp)\<rparr>
      else None)"

text \<open>
  The capture callback armed by a detected change, with the \<open>width\<close>, \<open>height\<close> and
  \<open>pipDetails\<close> of the tick that armed it. \<open>getImageData\<close> throws when the size
  it is asked for is 0, which ends the callback there.
\<close>

definition captureAfterChange ::
  "Browser \<Rightarrow> Sample \<Rightarrow> nat \<Rightarrow> nat \<Rightarrow> PipDetails option \<Rightarrow> ScreenShare \<Rightarrow> ScreenShare" where
  "captureAfterChange br smp width height pip s =
     (case getScaledDimensions (videoWidth smp) (videoHeight smp) imageSizeForChangeDetection
      of (captureWidth, captureHeight) \<Rightarrow>
        if hasCtx smp \<and> (captureWidth = 0 \<or> captureHeight = 0) then s
        else
          (let s1 = (if hasCtx smp
                     then s\<lparr>onChangeCalls := onChangeCalls s @
                               [(confirmationFrame br smp, archivalFrame smp)]\<rparr>
                     else s);
               s2 = (if hasResetCtx smp
                     then s1\<lparr>previousImageData := Some (maskedFrame br smp pip width height)\<rparr>
                     else s1)
           in if hasResetCtx smp \<and> (width = 0 \<or> height = 0) then s1
              else s2\<lparr>changeDetectionTimer := Some RunDetection\<rparr>))"

definition stopChangeDetection :: "ScreenShare \<Rightarrow> ScreenShare" where
  "stopChangeDetection s =
     s\<lparr>changeDetectionTimer := None,
       previousImageData := None,
       changeDetectionEnabled := False,
       isChangeDetectionPaused := False,
       hiddenVideos := 0\<rparr>"

text \<open>
  \<open>startChangeDetection\<close> up to the point where it waits for the video's metadata;
  \<open>onloadedmetadata\<close> arms the first timeout.
\<close>

definition startChangeDetection :: "ChangeDetectionOptions \<Rightarrow> ScreenShare \<Rightarrow> ScreenShare" where
  "startChangeDetection opts s =
     (if \<not> hasStream s then s
      else (stopChangeDetection s)
             \<lparr>changeDetectionEnabled := True,
              isChangeDetectionPaused := False,
              hiddenVideos := 1,
              options := opts\<rparr>)"

definition onloadedmetadata :: "ScreenShare \<Rightarrow> ScreenShare" where
  "onloadedmetadata s = s\<lparr>changeDetectionTimer := Some RunDetection\<rparr>"

definition pauseChangeDetection :: "ScreenShare \<Rightarrow> ScreenShare" where
  "pauseChangeDetection s =
     (if \<not> changeDetectionEnabled s then s else s\<lparr>isChangeDetectionPaused := True\<rparr>)"

definition resumeChangeDetection :: "ScreenShare \<Rightarrow> ScreenShare" where
  "resumeChangeDetection s =
     (if \<not> changeDetectionEnabled s then s
      else s\<lparr>isChangeDetectionPaused := False, previousImageData := None\<rparr>)"

definition pauseChangeDetectionTemporarily :: "nat \<Rightarrow> ScreenShare \<Rightarrow> ScreenShare" where
  "pauseChangeDetectionTemporarily durationMs s =
     (if \<not> changeDetectionEnabled s then s
      else s\<lparr>isChangeDetectionPaused := True, temporaryPauseTimer := Some durationMs\<rparr>)"

text \<open>The callback of \<open>temporaryPauseTimer\<close>, when that timeout is pending and fires.\<close>

definition temporaryPauseFires :: "ScreenShare \<Rightarrow> ScreenShare" where
  "temporaryPauseFires s =
     (case temporaryPauseTimer s of
        None \<Rightarrow> s
      | Some durationMs \<Rightarrow>
          s\<lparr>isChangeDetectionPaused := False,
            previousImageData := None,
            temporaryPauseTimer := None\<rparr>)"

text \<open>The pending \<open>changeDetectionTimer\<close> fires, if there is one.\<close>

definition timerFires :: "Browser \<Rightarrow> Sample \<Rightarrow> ScreenShare \<Rightarrow> ScreenShare" where
  "timerFires br smp s =
     (case changeDetectionTimer s of
        None \<Rightarrow> s
      | Some RunDetection \<Rightarrow> runDetection br smp (s\<lparr>changeDetectionTimer := None\<rparr>)
      | Some (CaptureAfterChange width height pip) \<Rightarrow>
          captureAfterChange br smp width height pip (s\<lparr>changeDetectionTimer := None\<rparr>))"

datatype Event =
    TimerFires Sample
  | TemporaryPauseFires
  | Pause
  | Resume
  | PauseTemporarily nat
  | Stop

fun step :: "Browser \<Rightarrow> ScreenShare \<Rightarrow> Event \<Rightarrow> ScreenShare" where
  "step br s (TimerFires smp) = timerFires br smp s"
| "step br s TemporaryPauseFires = temporaryPauseFires s"
| "step br s Pause = pauseChangeDetection s"
| "step br s Resume = resumeChangeDetection s"
| "step br s (PauseTemporarily durationMs) = pauseChangeDetectionTemporarily durationMs s"
| "step br s Stop = stopChangeDetection s"

definition run :: "Browser \<Rightarrow> ScreenShare \<Rightarrow> Event list \<Rightarrow> ScreenShare" where
  "run br s evs = foldl (step br) s evs"

section \<open>Task Orchestrator: \<open>TaskProvider\<close> (src/app/providers/AnalyticsProvider.tsx)\<close>

subsection \<open>Strings\<close>

text \<open>
  A JavaScript string is modelled by a \<open>string\<close> whose characters are the code units
  below 256. \<open>trim\<close> strips white space and line terminators from both ends;
  \<open>toLowerCase\<close> maps the upper-case letters of that range to lower case.
\<close>

definition isWhiteSpace :: "char \<Rightarrow> bool" where
  "isWhiteSpace c = ((of_char c :: nat) \<in> {9, 10, 11, 12, 13, 32, 160})"

definition trim :: "string \<Rightarrow> string" where
  "trim s = rev (dropWhile isWhiteSpace (rev (dropWhile isWhiteSpace s)))"

definition lowerChar :: "char \<Rightarrow> char" where
  "lowerChar c =
     (let n = (of_char c :: nat)
      in if (65 \<le> n \<and> n \<le> 90) \<or> (192 \<le> n \<and> n \<le> 222 \<and> n \<noteq> 215)
         then char_of (n + 32) else c)"

definition toLowerCase :: "string \<Rightarrow> string" where
  "toLowerCase s = map lowerChar s"

definition startsWith :: "string \<Rightarrow> string \<Rightarrow> bool" where
  "startsWith s p = (take (length p) s = p)"

text \<open>The regular expression \<open>/^-?\d+,\s*-?\d+$/\<close>, matched from left to right.\<close>

definition isDigit :: "char \<Rightarrow> bool" where
  "isDigit c = (48 \<le> (of_char c :: nat) \<and> (of_char c :: nat) \<le> 57)"

definition optionalMinus :: "string \<Rightarrow> string" where
  "optionalMinus s = (case s of [] \<Rightarrow> [] | c # r \<Rightarrow> if c = CHR ''-'' then r else s)"

definition coordinatePattern_test :: "string \<Rightarrow> bool" where
  "coordinatePattern_test s =
     (let s1 = optionalMinus s;
          r1 = dropWhile isDigit s1
      in takeWhile isDigit s1 \<noteq> [] \<and>
         (case r1 of
            [] \<Rightarrow> False
          | c # r2 \<Rightarrow>
              c = CHR '','' \<and>
              (let s2 = optionalMinus (dropWhile isWhiteSpace r2)
               in takeWhile isDigit s2 \<noteq> [] \<and> dropWhile isDigit s2 = [])))"

subsection \<open>State\<close>

definition MAX_STEPS :: nat where
  "MAX_STEPS = 150"

record FollowUpItem =
  question :: string
  answer :: string

text \<open>An absent \<open>followUps\<close> is the empty list (the source reads it as \<open>?? []\<close>).\<close>

record TaskHistoryItem =
  task_text :: string
  previewImage :: "string option"
  followUps :: "FollowUpItem list"

record FollowUpContext =
  previousImage :: string
  previousInstruction :: string
  followUpMessage :: string

text \<open>
  The calls the orchestrator makes to its collaborators, in order: the model keeps them
  in the state, so that "no call was made" can be said.
\<close>

datatype Call =
    CaptureImageFromStream
  | GenerateAction "string list" "FollowUpContext option"
  | GenerateCoordinate string
  | CreateCoordinateSnapshot
  | GenerateHelpResponse string string
  | StartChangeDetection
  | TrackFollowupQuestionAsked string
  | TrackFollowupResponseReceived string
  | TrackMaxStepsExceeded

text \<open>
  \<open>tasks\<close> is \<open>tasksRef.current\<close>, which every \<open>setTasks\<close> mirrors. The goal, the
  settings and the verification guards are left out: no function below changes or
  branches on them.
\<close>

record TaskState =
  tasks :: "TaskHistoryItem list"
  totalTaskCount :: nat
  totalTaskGeneration :: nat
  isLoading :: bool
  isLoadingFollowUp :: bool
  isLoadingPreviewImage :: bool
  lastScreenshot :: string
  pendingFollowUp :: string
  isTriggering :: bool
  changeDetectionStarted :: bool
  calls :: "Call list"

text \<open>
  How the awaited calls of one action-generation cycle settle. A cycle is run from its
  first line to its last with these outcomes; what other handlers do between two
  \<open>await\<close>s is outside the model.
\<close>

datatype 'a Outcome = Rejects | Resolves 'a

record Env =
  captureImageFromStream_result :: "(string \<times> string) Outcome"
  generateAction_result :: "string Outcome"
  generateCoordinate_result :: "string Outcome"
  createCoordinateSnapshot_result :: "string Outcome"

text \<open>Where a \<open>try\<close> block stands when it is left: by a throw, or at its end.\<close>

datatype Block = Threw TaskState | Completed TaskState

subsection \<open>\<open>triggerGenerateTaskDescription\<close>\<close>

text \<open>
  \<open>hasExceededMaxSteps\<close> is computed at each render; the model reads it from the
  current state, as a caller does that holds the functions of the latest render.
\<close>

definition hasExceededMaxSteps :: "TaskState \<Rightarrow> bool" where
  "hasExceededMaxSteps s = (totalTaskGeneration s \<ge> MAX_STEPS)"

definition logCall :: "Call \<Rightarrow> TaskState \<Rightarrow> TaskState" where
  "logCall c s = s\<lparr>calls := calls s @ [c]\<rparr>"

definition finallyBlock :: "TaskState \<Rightarrow> TaskState" where
  "finallyBlock s = s\<lparr>isTriggering := False, isLoading := False, isLoadingPreviewImage := False\<rparr>"

text \<open>Lines 393 to 410 of the cycle: the pending follow-up becomes revision context.\<close>

definition mergesFollowUp :: "TaskState \<Rightarrow> bool" where
  "mergesFollowUp s = (pendingFollowUp s \<noteq> [] \<and> lastScreenshot s \<noteq> [] \<and> tasks s \<noteq> [])"

definition mergePendingFollowUp :: "TaskState \<Rightarrow> FollowUpContext option \<times> TaskState" where
  "mergePendingFollowUp s =
     (if mergesFollowUp s
      then (Some \<lparr>previousImage = lastScreenshot s,
                   previousInstruction = task_text (last (tasks s)),
                   followUpMessage = pendingFollowUp s\<rparr>,
            s\<lparr>pendingFollowUp := [],
              tasks := butlast (tasks s),
              totalTaskCount := totalTaskCount s - 1\<rparr>)
      else (None, s))"

text \<open>Lines 423 to 442: the counters, and the new item filtered into the history.\<close>

definition appendStep :: "string \<Rightarrow> string \<Rightarrow> TaskState \<Rightarrow> TaskState" where
  "appendStep imageDataUrl txt s =
     s\<lparr>lastScreenshot := imageDataUrl,
       totalTaskGeneration := totalTaskGeneration s + 1,
       totalTaskCount := totalTaskCount s + 1,
       tasks := filter (\<lambda>item. task_text item \<noteq> [])
                  (tasks s @ [\<lparr>task_text = txt, previewImage = None, followUps = []\<rparr>]),
       isLoading := False\<rparr>"

definition isStandardizedInstruction :: "string \<Rightarrow> bool" where
  "isStandardizedInstruction textLower =
     (textLower = ''done'' \<or> textLower = ''done.'' \<or>
      textLower = ''wait'' \<or> textLower = ''wait.'' \<or>
      startsWith textLower ''scroll down'' \<or> startsWith textLower ''scroll up'')"

definition requestsCoordinate :: "string \<Rightarrow> bool" where
  "requestsCoordinate txt =
     (\<not> startsWith txt ''https://'' \<and> \<not> isStandardizedInstruction (toLowerCase txt) \<and>
      txt \<noteq> [])"

definition attachPreview :: "string \<Rightarrow> TaskState \<Rightarrow> TaskState" where
  "attachPreview generatedPreviewImage s =
     (if tasks s = [] then s
      else s\<lparr>tasks := (tasks s)[length (tasks s) - 1 :=
                 (last (tasks s))\<lparr>previewImage := Some generatedPreviewImage\<rparr>]\<rparr>)"

text \<open>Lines 456 to 478: the best-effort preview. Either awaited call can reject.\<close>

definition previewPhase :: "Env \<Rightarrow> string \<Rightarrow> TaskState \<Rightarrow> Block" where
  "previewPhase env txt s =
     (if requestsCoordinate txt then
        (let s1 = logCall (GenerateCoordinate txt) s
         in case generateCoordinate_result env of
              Rejects \<Rightarrow> Threw s1
            | Resolves coordinates \<Rightarrow>
                if coordinates \<noteq> [] \<and> coordinatePattern_test (trim coordinates) then
                  (let s2 = logCall CreateCoordinateSnapshot s1
                   in case createCoordinateSnapshot_result env of
                        Rejects \<Rightarrow> Threw s2
                      | Resolves generatedPreviewImage \<Rightarrow>
                          if generatedPreviewImage \<noteq> []
                          then Completed (attachPreview generatedPreviewImage s2)
                          else Completed s2)
                else Completed s1)
      else Completed s)"

text \<open>Lines 482 to 490: the first instruction that is not "done" starts the loop.\<close>

definition startDetectionPhase :: "string \<Rightarrow> TaskState \<Rightarrow> TaskState" where
  "startDetectionPhase txt s =
     (if \<not> changeDetectionStarted s \<and> txt \<noteq> [] \<and>
         toLowerCase txt \<noteq> ''done'' \<and> toLowerCase txt \<noteq> ''done.''
      then logCall StartChangeDetection (s\<lparr>changeDetectionStarted := True\<rparr>)
      else s)"

definition triggerGenerateTaskDescription :: "Env \<Rightarrow> TaskState \<Rightarrow> TaskState" where
  "triggerGenerateTaskDescription env s =
     (if hasExceededMaxSteps s \<or> isTriggering s then s
      else
        (let s1 = logCall CaptureImageFromStream (s\<lparr>isTriggering := True, isLoading := True\<rparr>)
         in case captureImageFromStream_result env of
              Rejects \<Rightarrow> finallyBlock s1
            | Resolves (imageDataUrl, nonScaledImage) \<Rightarrow>
                (case mergePendingFollowUp s1 of (followUpContext, s2) \<Rightarrow>
                   (let s3 = logCall (GenerateAction (map task_text (tasks s2)) followUpContext) s2
                    in case generateAction_result env of
                         Rejects \<Rightarrow> finallyBlock s3
                       | Resolves action \<Rightarrow>
                           (let txt = trim action;
                                s4 = appendStep imageDataUrl txt s3;
                                s5 = s4\<lparr>isLoadingPreviewImage := True\<rparr>
                            in case previewPhase env txt s5 of
                                 Threw s6 \<Rightarrow> finallyBlock s6
                               | Completed s6 \<Rightarrow>
                                   finallyBlock
                                     (startDetectionPhase txt
                                        (s6\<lparr>isLoadingPreviewImage := False\<rparr>)))))))"

text \<open>
  Two states of a cycle that the proofs name: the state after line 410, and the state
  in which \<open>generateAction\<close> is awaited.
\<close>

definition merged :: "TaskState \<Rightarrow> TaskState" where
  "merged s = snd (mergePendingFollowUp
     (logCall CaptureImageFromStream (s\<lparr>isTriggering := True, isLoading := True\<rparr>)))"

definition asked :: "TaskState \<Rightarrow> TaskState" where
  "asked s = logCall (GenerateAction (map task_text (tasks (merged s)))
       (fst (mergePendingFollowUp
         (logCall CaptureImageFromStream (s\<lparr>isTriggering := True, isLoading := True\<rparr>)))))
       (merged s)"

subsection \<open>The operations of the context\<close>

definition onNextTask :: "Env \<Rightarrow> TaskState \<Rightarrow> TaskState" where
  "onNextTask env s =
     (if hasExceededMaxSteps s then s else triggerGenerateTaskDescription env s)"

definition onRefreshTask :: "Env \<Rightarrow> TaskState \<Rightarrow> TaskState" where
  "onRefreshTask env s =
     (if hasExceededMaxSteps s then s
      else triggerGenerateTaskDescription env
             (if tasks s \<noteq> []
              then s\<lparr>tasks := butlast (tasks s), totalTaskCount := totalTaskCount s - 1\<rparr>
              else s))"

definition triggerFirstTask :: "Env \<Rightarrow> TaskState \<Rightarrow> TaskState" where
  "triggerFirstTask env s =
     (if hasExceededMaxSteps s then s else triggerGenerateTaskDescription env s)"

subsection \<open>Follow-up questions\<close>

definition addFollowUpToCurrentTask :: "FollowUpItem \<Rightarrow> TaskState \<Rightarrow> TaskState" where
  "addFollowUpToCurrentTask followUp s =
     (if tasks s = [] then s
      else
        (let currentTask = last (tasks s)
         in s\<lparr>tasks := (tasks s)[length (tasks s) - 1 :=
                  currentTask\<lparr>followUps := followUps currentTask @ [followUp]\<rparr>]\<rparr>))"

definition updateCurrentFollowUpAnswer :: "string \<Rightarrow> TaskState \<Rightarrow> TaskState" where
  "updateCurrentFollowUpAnswer a s =
     (if tasks s = [] then s
      else
        (let currentTask = last (tasks s);
             fus = followUps currentTask
         in if fus = [] then s
            else s\<lparr>tasks := (tasks s)[length (tasks s) - 1 :=
                     currentTask\<lparr>followUps :=
                       fus[length fus - 1 := (last fus)\<lparr>answer := a\<rparr>]\<rparr>]\<rparr>))"

definition removeLastFollowUpFromCurrentTask :: "TaskState \<Rightarrow> TaskState" where
  "removeLastFollowUpFromCurrentTask s =
     (if tasks s = [] then s
      else
        (let currentTask = last (tasks s);
             fus = followUps currentTask
         in if fus = [] then s
            else s\<lparr>tasks := (tasks s)[length (tasks s) - 1 :=
                     currentTask\<lparr>followUps := butlast fus\<rparr>]\<rparr>))"

text \<open>
  The streaming callback of \<open>sendFollowUpMessage\<close>, on the state and the two locals
  \<open>hasAddedFollowUp\<close> and \<open>isRegenerating\<close>.
\<close>

fun onStreamedMessage :: "string \<Rightarrow> TaskState \<times> bool \<times> bool \<Rightarrow> string \<Rightarrow> TaskState \<times> bool \<times> bool" where
  "onStreamedMessage q (s, hasAddedFollowUp, isRegenerating) streamedMessage =
     (if isRegenerating then (s, hasAddedFollowUp, isRegenerating)
      else if startsWith ''Regenerate'' streamedMessage
        then (s, hasAddedFollowUp, isRegenerating)
      else if trim streamedMessage = ''Regenerate'' then
        (if hasAddedFollowUp then (removeLastFollowUpFromCurrentTask s, False, True)
         else (s, hasAddedFollowUp, True))
      else if \<not> hasAddedFollowUp
        then (addFollowUpToCurrentTask \<lparr>question = q, answer = streamedMessage\<rparr> s,
              True, isRegenerating)
      else (updateCurrentFollowUpAnswer streamedMessage s, hasAddedFollowUp, isRegenerating))"

text \<open>
  How the awaited calls of \<open>sendFollowUpMessage\<close> settle: the capture, the partial
  payloads \<open>generateHelpResponse\<close> streams to its callback, and its result.
\<close>

record HelpEnv =
  help_captureImageFromStream_result :: "(string \<times> string) Outcome"
  streamedMessages :: "string list"
  generateHelpResponse_result :: "string Outcome"

definition currentTaskText :: "TaskState \<Rightarrow> string" where
  "currentTaskText s = (if tasks s = [] then [] else task_text (last (tasks s)))"

text \<open>
  \<open>sendFollowUpMessage\<close>; \<open>None\<close> is an \<open>undefined\<close> question. On the retry path it
  calls \<open>triggerGenerateTaskDescription\<close>, whose cycle runs with the outcomes \<open>env\<close>.
\<close>

definition sendFollowUpMessage :: "HelpEnv \<Rightarrow> Env \<Rightarrow> string option \<Rightarrow> TaskState \<Rightarrow> TaskState" where
  "sendFollowUpMessage henv env question' s =
     (case question' of
        None \<Rightarrow> s
      | Some q \<Rightarrow>
          if q = [] then s
          else
            (let s1 = logCall CaptureImageFromStream
                        ((logCall (TrackFollowupQuestionAsked q) s)\<lparr>isLoadingFollowUp := True\<rparr>)
             in case help_captureImageFromStream_result henv of
                  Rejects \<Rightarrow> s1\<lparr>isLoadingFollowUp := False\<rparr>
                | Resolves (imageDataUrl, nonScaledImage) \<Rightarrow>
                    (let s2 = logCall (GenerateHelpResponse q (currentTaskText s1)) s1
                     in case foldl (onStreamedMessage q) (s2, False, False)
                               (streamedMessages henv)
                        of (s3, hasAddedFollowUp, isRegenerating) \<Rightarrow>
                          (case generateHelpResponse_result henv of
                             Rejects \<Rightarrow>
                               (if hasAddedFollowUp then removeLastFollowUpFromCurrentTask s3
                                else s3)\<lparr>isLoadingFollowUp := False\<rparr>
                           | Resolves txt \<Rightarrow>
                               if trim txt = ''Regenerate'' then
                                 triggerGenerateTaskDescription env
                                   ((if hasAddedFollowUp
                                     then removeLastFollowUpFromCurrentTask s3 else s3)
                                      \<lparr>pendingFollowUp := q, isLoadingFollowUp := False\<rparr>)
                               else
                                 (logCall (TrackFollowupResponseReceived q)
                                    (if \<not> hasAddedFollowUp
                                     then addFollowUpToCurrentTask
                                            \<lparr>question = q, answer = txt\<rparr> s3
                                     else s3))\<lparr>isLoadingFollowUp := False\<rparr>))))"

subsection \<open>The max-steps effect, and runs of operations\<close>

text \<open>
  The effect that reports the step ceiling runs after a render in which one of its
  dependencies changed; \<open>totalTaskGeneration\<close> is the one that can.
\<close>

definition maxStepsEffect :: "TaskState \<Rightarrow> TaskState \<Rightarrow> TaskState" where
  "maxStepsEffect before s =
     (if totalTaskGeneration s \<noteq> totalTaskGeneration before \<and>
         hasExceededMaxSteps s \<and> totalTaskGeneration s = MAX_STEPS
      then logCall TrackMaxStepsExceeded s
      else s)"

datatype Operation =
    OnNextTask Env
  | OnRefreshTask Env
  | TriggerFirstTask Env
  | SendFollowUpMessage HelpEnv Env "string option"

fun operate :: "Operation \<Rightarrow> TaskState \<Rightarrow> TaskState" where
  "operate (OnNextTask env) s = onNextTask env s"
| "operate (OnRefreshTask env) s = onRefreshTask env s"
| "operate (TriggerFirstTask env) s = triggerFirstTask env s"
| "operate (SendFollowUpMessage henv env q) s = sendFollowUpMessage henv env q s"

definition render :: "TaskState \<Rightarrow> Operation \<Rightarrow> TaskState" where
  "render s op = maxStepsEffect s (operate op s)"

definition operations :: "TaskState \<Rightarrow> Operation list \<Rightarrow> TaskState" where
  "operations s ops = foldl render s ops"

definition maxStepsEvents :: "TaskState \<Rightarrow> nat" where
  "maxStepsEvents s = length (filter (\<lambda>c. c = TrackMaxStepsExceeded) (calls s))"

subsection \<open>Invariants used in the proofs\<close>

text \<open>What the preview phase leaves alone: everything but the calls and the items.\<close>

definition sameButTasksCalls :: "TaskState \<Rightarrow> TaskState \<Rightarrow> bool" where
  "sameButTasksCalls s s' =
     (totalTaskCount s' = totalTaskCount s \<and>
      totalTaskGeneration s' = totalTaskGeneration s \<and>
      isLoading s' = isLoading s \<and>
      isLoadingFollowUp s' = isLoadingFollowUp s \<and>
      isLoadingPreviewImage s' = isLoadingPreviewImage s \<and>
      lastScreenshot s' = lastScreenshot s \<and>
      pendingFollowUp s' = pendingFollowUp s \<and>
      isTriggering s' = isTriggering s \<and>
      changeDetectionStarted s' = changeDetectionStarted s \<and>
      maxStepsEvents s' = maxStepsEvents s \<and>
      length (tasks s') = length (tasks s))"

text \<open>
  The locals of the streaming callback against the state the stream started from: a
  follow-up has been added to it, or nothing has.
\<close>

definition streaming :: "TaskState \<Rightarrow> TaskState \<times> bool \<times> bool \<Rightarrow> bool" where
  "streaming s0 st =
     (case st of (s, hasAddedFollowUp, isRegenerating) \<Rightarrow>
        if hasAddedFollowUp then (\<exists>fu. s = addFollowUpToCurrentTask fu s0) else s = s0)"

text \<open>
  What one operation can do to the generation counter and to the max-steps events, and
  what every run keeps.
\<close>

definition countsAtMostOne :: "TaskState \<Rightarrow> TaskState \<Rightarrow> bool" where
  "countsAtMostOne s s' =
     (maxStepsEvents s' = maxStepsEvents s \<and>
      (totalTaskGeneration s' = totalTaskGeneration s \<or>
       (totalTaskGeneration s < MAX_STEPS \<and>
        totalTaskGeneration s' = totalTaskGeneration s + 1)))"

definition ceilingKept :: "TaskState \<Rightarrow> bool" where
  "ceilingKept s =
     (totalTaskGeneration s \<le> MAX_STEPS \<and>
      maxStepsEvents s = (if totalTaskGeneration s = MAX_STEPS then 1 else 0))"

section \<open>Concrete inputs for the Change-Detection Loop\<close>

text \<open>
  A browser whose \<open>fillRect\<close> paints nothing (no overlay is active in the runs below), a
  20 by 20 video that renders all black or all white at every size, and a session that
  is sharing its screen.
\<close>

definition browser0 :: Browser where
  "browser0 = \<lparr>screenWidth = 1920, screenHeight = 1080, fillRect = (\<lambda>x y w h ctx. ctx)\<rparr>"

definition blackVideo :: Sample where
  "blackVideo = \<lparr>videoWidth = 20, videoHeight = 20,
     drawImage = (\<lambda>w h. replicate (4 * (w * h)) 0),
     pipDetails = None, hasCtx = True, hasNonScaledCtx = True, hasResetCtx = True\<rparr>"

definition whiteVideo :: Sample where
  "whiteVideo = \<lparr>videoWidth = 20, videoHeight = 20,
     drawImage = (\<lambda>w h. replicate (4 * (w * h)) 255),
     pipDetails = None, hasCtx = True, hasNonScaledCtx = True, hasResetCtx = True\<rparr>"

definition sharing0 :: ScreenShare where
  "sharing0 = \<lparr>hasStream = True, changeDetectionEnabled = False,
     isChangeDetectionPaused = False, isAnalyzingScreenChange = False,
     changeDetectionTimer = None, previousImageData = None, temporaryPauseTimer = None,
     hiddenVideos = 0, options = defaultOptions, onChangeCalls = []\<rparr>"

definition polling0 :: ScreenShare where
  "polling0 = onloadedmetadata (startChangeDetection defaultOptions sharing0)"

definition blackAnalysis :: ImageData where
  "blackAnalysis = \<lparr>img_width = 2, img_height = 2, img_data = replicate 16 0\<rparr>"




definition restarted0 :: ScreenShare where
  "restarted0 =
     timerFires browser0 blackVideo
       (onloadedmetadata
          (startChangeDetection defaultOptions
             (stopChangeDetection (pauseChangeDetectionTemporarily 2000 polling0))))"

section \<open>Concrete inputs for the Task Orchestrator\<close>

text \<open>
  A history of one step, with and without a pending follow-up and near the step
  ceiling; cycles in which \<open>generateAction\<close> rejects, answers with blanks, or answers
  "Scroll down"; and a help stream that spells out the sentinel.
\<close>

definition clickStep :: TaskHistoryItem where
  "clickStep = \<lparr>task_text = ''Click the gear icon'', previewImage = None, followUps = []\<rparr>"

definition afterClick :: TaskState where
  "afterClick =
     \<lparr>tasks = [clickStep], totalTaskCount = 1, totalTaskGeneration = 1,
      isLoading = False, isLoadingFollowUp = False, isLoadingPreviewImage = False,
      lastScreenshot = ''frame1'', pendingFollowUp = [], isTriggering = False,
      changeDetectionStarted = True, calls = []\<rparr>"

definition revising :: TaskState where
  "revising = afterClick\<lparr>pendingFollowUp := ''I see no gear''\<rparr>"

definition nearCeiling :: TaskState where
  "nearCeiling = afterClick\<lparr>totalTaskGeneration := 149\<rparr>"

definition atCeiling :: TaskState where
  "atCeiling = afterClick\<lparr>totalTaskGeneration := 150\<rparr>"

definition actionFails :: Env where
  "actionFails =
     \<lparr>captureImageFromStream_result = Resolves (''frame2'', ''full2''),
      generateAction_result = Rejects,
      generateCoordinate_result = Rejects,
      createCoordinateSnapshot_result = Rejects\<rparr>"

definition blankAction :: Env where
  "blankAction = actionFails\<lparr>generateAction_result := Resolves ''  ''\<rparr>"

definition scrollAction :: Env where
  "scrollAction = actionFails\<lparr>generateAction_result := Resolves ''Scroll down''\<rparr>"

definition regenerates :: HelpEnv where
  "regenerates =
     \<lparr>help_captureImageFromStream_result = Resolves (''frame3'', ''full3''),
      streamedMessages = [''Reg'', ''Regen'', ''Regenerate''],
      generateHelpResponse_result = Resolves ''Regenerate''\<rparr>"

section \<open>Properties of the Frame Scaler\<close>






section \<open>Properties of the Frame Differ\<close>

lemma count_same_gen:
  "data2 = data1 \<Longrightarrow> countDifferentPixels data1 data2 i acc = acc"
proof (induction data1 data2 i acc rule: countDifferentPixels.induct)
  case (1 data1 data2 i n)
  have nc: "\<not> pixelChanged data1 data1 i"
    by (simp add: pixelChanged_def absDiff_def exceeds_def element_def pixelThreshold_def)
  show ?case using 1 nc by (subst countDifferentPixels.simps) simp
qed

lemma calculateImageDifference_same: "calculateImageDifference F F = 0"
  by (simp add: calculateImageDifference_def count_same_gen)

lemma pixelChanged_sym: "pixelChanged d1 d2 i = pixelChanged d2 d1 i"
  by (auto simp: pixelChanged_def absDiff_def exceeds_def Let_def abs_minus_commute
        split: option.splits)









section \<open>Properties of the Masking Engine\<close>

lemma length_blackOut [simp]: "length (blackOut d idx) = length d"
  by (simp add: blackOut_def)


lemma length_row [simp]:
  "length (foldl (\<lambda>d x. blackOut d (f x)) d xs) = length d"
  by (induction xs arbitrary: d) simp_all


lemma length_rows [simp]:
  "length (foldl (\<lambda>d y. foldl (\<lambda>d x. blackOut d (g y x)) d xs) d ys) = length d"
  by (induction ys arbitrary: d) simp_all




lemma length_detectAndMaskPopup [simp]:
  "length (detectAndMaskPopup d w h) = length d"
  by (simp add: detectAndMaskPopup_def split: prod.splits)


lemma wellFormed_getImageData [simp]:
  "length (img_data (getImageData ctx w h)) = 4 * (w * h)"
  by (simp add: getImageData_def)

lemma maskedFrame_dims [simp]:
  "img_width (maskedFrame br smp pip w h) = w"
  "img_height (maskedFrame br smp pip w h) = h"
  "length (img_data (maskedFrame br smp pip w h)) = 4 * (w * h)"
  by (simp_all add: maskedFrame_def Let_def getImageData_def)


section \<open>Runs of the Change-Detection Loop on the concrete inputs\<close>

lemmas loop_defs = run_def timerFires_def runDetection_def captureAfterChange_def
  analysisFrame_def maskedFrame_def drawAndMaskPip_def getImageData_def
  detectAndMaskPopup_def bannerRect_def confirmationFrame_def archivalFrame_def
  getScaledDimensions_def imageSizeForChangeDetection_def calculateImageDifference_def
  pixelChanged_def element_def absDiff_def exceeds_def pixelThreshold_def
  startChangeDetection_def stopChangeDetection_def onloadedmetadata_def defaultOptions_def
  pauseChangeDetectionTemporarily_def temporaryPauseFires_def

lemma polling0_eq: "polling0 = sharing0\<lparr>changeDetectionEnabled := True, hiddenVideos := 1,
    changeDetectionTimer := Some RunDetection\<rparr>"
  by (simp add: polling0_def sharing0_def loop_defs)

lemma analysisFrame_blackVideo: "analysisFrame browser0 defaultOptions blackVideo = blackAnalysis"
  by (simp add: loop_defs blackVideo_def browser0_def blackAnalysis_def Let_def upt_conv_Cons)



lemma analysis_dims: "nat \<lfloor>real (videoWidth blackVideo) * scaleFactor defaultOptions\<rfloor> = 2"
   "nat \<lfloor>real (videoHeight blackVideo) * scaleFactor defaultOptions\<rfloor> = 2"
   "nat \<lfloor>real (videoWidth whiteVideo) * scaleFactor defaultOptions\<rfloor> = 2"
   "nat \<lfloor>real (videoHeight whiteVideo) * scaleFactor defaultOptions\<rfloor> = 2"
  by (simp_all add: blackVideo_def whiteVideo_def defaultOptions_def)






section \<open>Properties of the Change-Detection Loop\<close>

lemma timerFires_identical:
  assumes thr: "0 < threshold (options s)"
    and prev: "previousImageData s = None \<or> previousImageData s = Some F"
    and tm: "changeDetectionTimer s = None \<or> changeDetectionTimer s = Some RunDetection"
    and fr: "analysisFrame br (options s) smp = F"
  shows "options (timerFires br smp s) = options s \<and>
         onChangeCalls (timerFires br smp s) = onChangeCalls s \<and>
         isAnalyzingScreenChange (timerFires br smp s) = isAnalyzingScreenChange s \<and>
         (previousImageData (timerFires br smp s) = None \<or>
          previousImageData (timerFires br smp s) = Some F) \<and>
         (changeDetectionTimer (timerFires br smp s) = None \<or>
          changeDetectionTimer (timerFires br smp s) = Some RunDetection)"
proof -
  have same: "\<not> threshold (options s) \<le> calculateImageDifference F F"
    using thr by (simp add: calculateImageDifference_same)
  from tm show ?thesis
  proof
    assume "changeDetectionTimer s = None"
    then show ?thesis using prev by (simp add: timerFires_def)
  next
    assume t: "changeDetectionTimer s = Some RunDetection"
    from prev show ?thesis
    proof
      assume "previousImageData s = None"
      then show ?thesis using t fr
        by (simp add: timerFires_def runDetection_def Let_def)
    next
      assume "previousImageData s = Some F"
      then show ?thesis using t fr same
        by (simp add: timerFires_def runDetection_def Let_def)
    qed
  qed
qed

lemma step_identical:
  assumes thr: "0 < threshold (options s)"
    and prev: "previousImageData s = None \<or> previousImageData s = Some F"
    and tm: "changeDetectionTimer s = None \<or> changeDetectionTimer s = Some RunDetection"
    and fr: "\<And>smp. ev = TimerFires smp \<Longrightarrow> analysisFrame br (options s) smp = F"
  shows "options (step br s ev) = options s \<and>
         onChangeCalls (step br s ev) = onChangeCalls s \<and>
         isAnalyzingScreenChange (step br s ev) = isAnalyzingScreenChange s \<and>
         (previousImageData (step br s ev) = None \<or>
          previousImageData (step br s ev) = Some F) \<and>
         (changeDetectionTimer (step br s ev) = None \<or>
          changeDetectionTimer (step br s ev) = Some RunDetection)"
proof (cases ev)
  case (TimerFires smp)
  then show ?thesis using timerFires_identical[OF thr prev tm fr[OF TimerFires]] by simp
next
  case TemporaryPauseFires
  then show ?thesis using prev tm
    by (auto simp: temporaryPauseFires_def split: option.splits)
next
  case Pause
  then show ?thesis using prev tm by (auto simp: pauseChangeDetection_def)
next
  case Resume
  then show ?thesis using prev tm by (auto simp: resumeChangeDetection_def)
next
  case (PauseTemporarily d)
  then show ?thesis using prev tm by (auto simp: pauseChangeDetectionTemporarily_def)
next
  case Stop
  then show ?thesis by (simp add: stopChangeDetection_def)
qed

lemma run_identical:
  assumes "0 < threshold (options s)"
    and "previousImageData s = None \<or> previousImageData s = Some F"
    and "changeDetectionTimer s = None \<or> changeDetectionTimer s = Some RunDetection"
    and "\<forall>smp. TimerFires smp \<in> set evs \<longrightarrow> analysisFrame br (options s) smp = F"
  shows "onChangeCalls (run br s evs) = onChangeCalls s \<and>
         isAnalyzingScreenChange (run br s evs) = isAnalyzingScreenChange s \<and>
         (changeDetectionTimer (run br s evs) = None \<or>
          changeDetectionTimer (run br s evs) = Some RunDetection)"
  using assms
proof (induction evs arbitrary: s)
  case Nil
  then show ?case by (simp add: run_def)
next
  case (Cons ev evs)
  have fr: "\<And>smp. ev = TimerFires smp \<Longrightarrow> analysisFrame br (options s) smp = F"
    using Cons.prems(4) by simp
  note st = step_identical[OF Cons.prems(1,2,3) fr]
  have o: "options (step br s ev) = options s" using st by simp
  have "onChangeCalls (run br (step br s ev) evs) = onChangeCalls (step br s ev) \<and>
        isAnalyzingScreenChange (run br (step br s ev) evs) =
          isAnalyzingScreenChange (step br s ev) \<and>
        (changeDetectionTimer (run br (step br s ev) evs) = None \<or>
         changeDetectionTimer (run br (step br s ev) evs) = Some RunDetection)"
  proof (rule Cons.IH)
    show "0 < threshold (options (step br s ev))" using Cons.prems(1) o by simp
    show "previousImageData (step br s ev) = None \<or> previousImageData (step br s ev) = Some F"
      using st by simp
    show "changeDetectionTimer (step br s ev) = None \<or>
          changeDetectionTimer (step br s ev) = Some RunDetection"
      using st by simp
    show "\<forall>smp. TimerFires smp \<in> set evs \<longrightarrow> analysisFrame br (options (step br s ev)) smp = F"
      using Cons.prems(4) o by simp
  qed
  moreover have "run br s (ev # evs) = run br (step br s ev) evs" by (simp add: run_def)
  ultimately show ?case using st by simp
qed









text \<open>
  Claim C6. Take a loop with a positive threshold that is not in its capture window
  and whose stored previous frame is absent or is \<open>F\<close>. Over any sequence of events
  (timeouts firing, pause, resume, temporary pause and its timeout, stop) in which every
  polling tick's analysis frame is \<open>F\<close>, \<open>callback\<close> is never called, the loop never
  enters the capture window, and \<open>isAnalyzingScreenChange\<close> is never raised.
\<close>

theorem identical_frames_never_fire:
  assumes "0 < threshold (options s)"
    and "previousImageData s = None \<or> previousImageData s = Some F"
    and "changeDetectionTimer s = None \<or> changeDetectionTimer s = Some RunDetection"
    and "\<forall>smp. TimerFires smp \<in> set evs \<longrightarrow> analysisFrame br (options s) smp = F"
  shows "onChangeCalls (run br s evs) = onChangeCalls s \<and>
         isAnalyzingScreenChange (run br s evs) = isAnalyzingScreenChange s \<and>
         (changeDetectionTimer (run br s evs) = None \<or>
          changeDetectionTimer (run br s evs) = Some RunDetection)"
  using assms by (rule run_identical)

theorem identical_frames_never_fire_witness:
  "onChangeCalls (run browser0 polling0
      [TimerFires blackVideo, Pause, TimerFires blackVideo, Resume, TimerFires blackVideo,
       TimerFires blackVideo]) = []"
  using identical_frames_never_fire[of polling0 blackAnalysis
      "[TimerFires blackVideo, Pause, TimerFires blackVideo, Resume, TimerFires blackVideo,
       TimerFires blackVideo]" browser0]
  by (simp add: polling0_eq sharing0_def analysisFrame_blackVideo) (simp add: defaultOptions_def)

text \<open>
  What \<open>stopChangeDetection\<close> does do: it cancels \<open>changeDetectionTimer\<close>, clears the
  previous frame, removes the hidden videos, leaves the loop stopped, and is idempotent.
  It leaves \<open>temporaryPauseTimer\<close> as it was.
\<close>

lemma stopChangeDetection_stops:
  "changeDetectionTimer (stopChangeDetection s) = None \<and>
   previousImageData (stopChangeDetection s) = None \<and>
   hiddenVideos (stopChangeDetection s) = 0 \<and>
   \<not> changeDetectionEnabled (stopChangeDetection s) \<and>
   \<not> isChangeDetectionPaused (stopChangeDetection s) \<and>
   stopChangeDetection (stopChangeDetection s) = stopChangeDetection s \<and>
   temporaryPauseTimer (stopChangeDetection s) = temporaryPauseTimer s"
  by (simp add: stopChangeDetection_def)

text \<open>
  Claim C2 fails on the code. \<open>stopChangeDetection\<close> cancels \<open>changeDetectionTimer\<close>
  only: a timeout armed by \<open>pauseChangeDetectionTemporarily\<close> is still pending after
  the stop, and firing then changes the state. When detection is started again in the
  meantime and a tick has stored its baseline frame, the stale timeout discards that
  baseline.
\<close>

theorem stopChangeDetection_leaves_temporaryPauseTimer:
  "temporaryPauseTimer (stopChangeDetection (pauseChangeDetectionTemporarily 2000 polling0))
     = Some 2000 \<and>
   temporaryPauseFires (stopChangeDetection (pauseChangeDetectionTemporarily 2000 polling0))
     \<noteq> stopChangeDetection (pauseChangeDetectionTemporarily 2000 polling0) \<and>
   temporaryPauseTimer restarted0 = Some 2000 \<and>
   previousImageData restarted0 = Some blackAnalysis \<and>
   previousImageData (temporaryPauseFires restarted0) = None"
proof -
  let ?stopped = "stopChangeDetection (pauseChangeDetectionTemporarily 2000 polling0)"
  have st: "?stopped = sharing0\<lparr>temporaryPauseTimer := Some 2000\<rparr>"
    by (simp add: polling0_eq sharing0_def stopChangeDetection_def
          pauseChangeDetectionTemporarily_def)
  have re: "onloadedmetadata (startChangeDetection defaultOptions ?stopped) =
            polling0\<lparr>temporaryPauseTimer := Some 2000\<rparr>"
    unfolding st
    by (simp add: polling0_eq sharing0_def onloadedmetadata_def startChangeDetection_def
          stopChangeDetection_def)
  have r0: "restarted0 =
     polling0\<lparr>temporaryPauseTimer := Some 2000, previousImageData := Some blackAnalysis\<rparr>"
    unfolding restarted0_def re
    by (simp add: polling0_eq sharing0_def timerFires_def runDetection_def analysisFrame_blackVideo analysis_dims Let_def)
       (simp add: blackVideo_def)
  have a: "temporaryPauseTimer ?stopped = Some 2000"
    by (simp add: st)
  have b: "temporaryPauseFires ?stopped \<noteq> ?stopped"
  proof
    assume "temporaryPauseFires ?stopped = ?stopped"
    then have "temporaryPauseTimer (temporaryPauseFires ?stopped) = temporaryPauseTimer ?stopped"
      by simp
    then show False by (simp add: st temporaryPauseFires_def)
  qed
  have c: "temporaryPauseTimer restarted0 = Some 2000"
    and d: "previousImageData restarted0 = Some blackAnalysis"
    and e: "previousImageData (temporaryPauseFires restarted0) = None"
    by (simp_all add: r0 temporaryPauseFires_def)
  show ?thesis using a b c d e by (intro conjI)
qed

section \<open>Properties of the Task Orchestrator\<close>

subsection \<open>The concrete states\<close>

lemma revising_ready: "\<not> hasExceededMaxSteps revising" "\<not> isTriggering revising"
  "mergesFollowUp revising" "tasks revising = [clickStep]"
  by (simp_all add: revising_def afterClick_def hasExceededMaxSteps_def MAX_STEPS_def
        mergesFollowUp_def)

lemma afterClick_ready: "\<not> hasExceededMaxSteps afterClick" "\<not> isTriggering afterClick"
  "\<not> mergesFollowUp afterClick" "tasks afterClick = [clickStep]" "totalTaskCount afterClick = 1"
  "totalTaskGeneration afterClick = 1"
  by (simp_all add: afterClick_def hasExceededMaxSteps_def MAX_STEPS_def mergesFollowUp_def)

subsection \<open>What each phase of a cycle changes\<close>

lemma maxStepsEvents_logCall [simp]:
  "maxStepsEvents (logCall c s) = maxStepsEvents s + (if c = TrackMaxStepsExceeded then 1 else 0)"
  by (simp add: maxStepsEvents_def logCall_def)

lemma logCall_fields [simp]:
  "tasks (logCall c s) = tasks s"
  "totalTaskCount (logCall c s) = totalTaskCount s"
  "totalTaskGeneration (logCall c s) = totalTaskGeneration s"
  "isLoading (logCall c s) = isLoading s"
  "isLoadingFollowUp (logCall c s) = isLoadingFollowUp s"
  "isLoadingPreviewImage (logCall c s) = isLoadingPreviewImage s"
  "lastScreenshot (logCall c s) = lastScreenshot s"
  "pendingFollowUp (logCall c s) = pendingFollowUp s"
  "isTriggering (logCall c s) = isTriggering s"
  "changeDetectionStarted (logCall c s) = changeDetectionStarted s"
  "calls (logCall c s) = calls s @ [c]"
  by (simp_all add: logCall_def)

lemma maxStepsEvents_update [simp]:
  "maxStepsEvents (s\<lparr>tasks := a\<rparr>) = maxStepsEvents s"
  "maxStepsEvents (s\<lparr>totalTaskCount := b\<rparr>) = maxStepsEvents s"
  "maxStepsEvents (s\<lparr>totalTaskGeneration := c\<rparr>) = maxStepsEvents s"
  "maxStepsEvents (s\<lparr>isLoading := d\<rparr>) = maxStepsEvents s"
  "maxStepsEvents (s\<lparr>isLoadingFollowUp := e\<rparr>) = maxStepsEvents s"
  "maxStepsEvents (s\<lparr>isLoadingPreviewImage := f\<rparr>) = maxStepsEvents s"
  "maxStepsEvents (s\<lparr>lastScreenshot := g\<rparr>) = maxStepsEvents s"
  "maxStepsEvents (s\<lparr>pendingFollowUp := h\<rparr>) = maxStepsEvents s"
  "maxStepsEvents (s\<lparr>isTriggering := i\<rparr>) = maxStepsEvents s"
  "maxStepsEvents (s\<lparr>changeDetectionStarted := j\<rparr>) = maxStepsEvents s"
  by (simp_all add: maxStepsEvents_def)

lemma finallyBlock_fields [simp]:
  "tasks (finallyBlock s) = tasks s"
  "totalTaskCount (finallyBlock s) = totalTaskCount s"
  "totalTaskGeneration (finallyBlock s) = totalTaskGeneration s"
  "isLoading (finallyBlock s) = False"
  "isLoadingFollowUp (finallyBlock s) = isLoadingFollowUp s"
  "isLoadingPreviewImage (finallyBlock s) = False"
  "lastScreenshot (finallyBlock s) = lastScreenshot s"
  "pendingFollowUp (finallyBlock s) = pendingFollowUp s"
  "isTriggering (finallyBlock s) = False"
  "changeDetectionStarted (finallyBlock s) = changeDetectionStarted s"
  "calls (finallyBlock s) = calls s"
  "maxStepsEvents (finallyBlock s) = maxStepsEvents s"
  by (simp_all add: finallyBlock_def)

lemma mergePendingFollowUp_fields:
  "tasks (snd (mergePendingFollowUp s)) = (if mergesFollowUp s then butlast (tasks s) else tasks s)"
  "totalTaskCount (snd (mergePendingFollowUp s)) =
     (if mergesFollowUp s then totalTaskCount s - 1 else totalTaskCount s)"
  "pendingFollowUp (snd (mergePendingFollowUp s)) =
     (if mergesFollowUp s then [] else pendingFollowUp s)"
  "totalTaskGeneration (snd (mergePendingFollowUp s)) = totalTaskGeneration s"
  "maxStepsEvents (snd (mergePendingFollowUp s)) = maxStepsEvents s"
  "calls (snd (mergePendingFollowUp s)) = calls s"
  "isLoading (snd (mergePendingFollowUp s)) = isLoading s"
  "isLoadingFollowUp (snd (mergePendingFollowUp s)) = isLoadingFollowUp s"
  "isLoadingPreviewImage (snd (mergePendingFollowUp s)) = isLoadingPreviewImage s"
  "isTriggering (snd (mergePendingFollowUp s)) = isTriggering s"
  "lastScreenshot (snd (mergePendingFollowUp s)) = lastScreenshot s"
  "changeDetectionStarted (snd (mergePendingFollowUp s)) = changeDetectionStarted s"
  by (simp_all add: mergePendingFollowUp_def)

lemma attachPreview_fields [simp]:
  "totalTaskCount (attachPreview p s) = totalTaskCount s"
  "totalTaskGeneration (attachPreview p s) = totalTaskGeneration s"
  "isLoading (attachPreview p s) = isLoading s"
  "isLoadingFollowUp (attachPreview p s) = isLoadingFollowUp s"
  "isLoadingPreviewImage (attachPreview p s) = isLoadingPreviewImage s"
  "lastScreenshot (attachPreview p s) = lastScreenshot s"
  "pendingFollowUp (attachPreview p s) = pendingFollowUp s"
  "isTriggering (attachPreview p s) = isTriggering s"
  "changeDetectionStarted (attachPreview p s) = changeDetectionStarted s"
  "calls (attachPreview p s) = calls s"
  "maxStepsEvents (attachPreview p s) = maxStepsEvents s"
  "length (tasks (attachPreview p s)) = length (tasks s)"
  by (simp_all add: attachPreview_def)

lemma previewPhase_Threw:
  "previewPhase env txt s = Threw s' \<Longrightarrow> sameButTasksCalls s s' \<and> tasks s' = tasks s"
  by (auto simp: previewPhase_def sameButTasksCalls_def Let_def
        split: if_splits Outcome.splits)

lemma previewPhase_Completed:
  "previewPhase env txt s = Completed s' \<Longrightarrow> sameButTasksCalls s s'"
  by (auto simp: previewPhase_def sameButTasksCalls_def Let_def
        split: if_splits Outcome.splits)

lemma startDetectionPhase_fields [simp]:
  "tasks (startDetectionPhase txt s) = tasks s"
  "totalTaskCount (startDetectionPhase txt s) = totalTaskCount s"
  "totalTaskGeneration (startDetectionPhase txt s) = totalTaskGeneration s"
  "isLoading (startDetectionPhase txt s) = isLoading s"
  "isLoadingFollowUp (startDetectionPhase txt s) = isLoadingFollowUp s"
  "isLoadingPreviewImage (startDetectionPhase txt s) = isLoadingPreviewImage s"
  "lastScreenshot (startDetectionPhase txt s) = lastScreenshot s"
  "pendingFollowUp (startDetectionPhase txt s) = pendingFollowUp s"
  "isTriggering (startDetectionPhase txt s) = isTriggering s"
  "maxStepsEvents (startDetectionPhase txt s) = maxStepsEvents s"
  by (simp_all add: startDetectionPhase_def)

lemma appendStep_fields [simp]:
  "tasks (appendStep img txt s) =
     filter (\<lambda>item. task_text item \<noteq> [])
       (tasks s @ [\<lparr>task_text = txt, previewImage = None, followUps = []\<rparr>])"
  "totalTaskCount (appendStep img txt s) = totalTaskCount s + 1"
  "totalTaskGeneration (appendStep img txt s) = totalTaskGeneration s + 1"
  "isLoading (appendStep img txt s) = False"
  "isLoadingFollowUp (appendStep img txt s) = isLoadingFollowUp s"
  "isLoadingPreviewImage (appendStep img txt s) = isLoadingPreviewImage s"
  "lastScreenshot (appendStep img txt s) = img"
  "pendingFollowUp (appendStep img txt s) = pendingFollowUp s"
  "isTriggering (appendStep img txt s) = isTriggering s"
  "changeDetectionStarted (appendStep img txt s) = changeDetectionStarted s"
  "calls (appendStep img txt s) = calls s"
  "maxStepsEvents (appendStep img txt s) = maxStepsEvents s"
  by (simp_all add: appendStep_def)

text \<open>The cycle, outcome by outcome.\<close>

lemma trigger_skipped:
  "hasExceededMaxSteps s \<or> isTriggering s \<Longrightarrow> triggerGenerateTaskDescription env s = s"
  by (simp add: triggerGenerateTaskDescription_def)

lemma trigger_capture_rejects:
  assumes "\<not> hasExceededMaxSteps s" "\<not> isTriggering s"
    and "captureImageFromStream_result env = Rejects"
  shows "triggerGenerateTaskDescription env s =
           finallyBlock (logCall CaptureImageFromStream (s\<lparr>isTriggering := True, isLoading := True\<rparr>))"
  using assms by (simp add: triggerGenerateTaskDescription_def)

lemma trigger_action_rejects:
  assumes "\<not> hasExceededMaxSteps s" "\<not> isTriggering s"
    and "captureImageFromStream_result env = Resolves c"
    and "generateAction_result env = Rejects"
  shows "triggerGenerateTaskDescription env s = finallyBlock (asked s)"
  using assms
  by (cases c) (simp add: triggerGenerateTaskDescription_def asked_def merged_def split: prod.splits)

lemma trigger_action_resolves:
  assumes "\<not> hasExceededMaxSteps s" "\<not> isTriggering s"
    and "captureImageFromStream_result env = Resolves (img, ns)"
    and "generateAction_result env = Resolves a"
  shows "triggerGenerateTaskDescription env s =
     (case previewPhase env (trim a)
             ((appendStep img (trim a) (asked s))\<lparr>isLoadingPreviewImage := True\<rparr>) of
        Threw s6 \<Rightarrow> finallyBlock s6
      | Completed s6 \<Rightarrow>
          finallyBlock (startDetectionPhase (trim a) (s6\<lparr>isLoadingPreviewImage := False\<rparr>)))"
  using assms
  by (simp add: triggerGenerateTaskDescription_def asked_def merged_def Let_def split: prod.splits)

lemma merged_fields [simp]:
  "tasks (merged s) = (if mergesFollowUp s then butlast (tasks s) else tasks s)"
  "totalTaskCount (merged s) = (if mergesFollowUp s then totalTaskCount s - 1 else totalTaskCount s)"
  "pendingFollowUp (merged s) = (if mergesFollowUp s then [] else pendingFollowUp s)"
  "totalTaskGeneration (merged s) = totalTaskGeneration s"
  "maxStepsEvents (merged s) = maxStepsEvents s"
  by (simp_all add: merged_def mergePendingFollowUp_fields mergesFollowUp_def)

lemma asked_fields [simp]:
  "tasks (asked s) = tasks (merged s)"
  "totalTaskCount (asked s) = totalTaskCount (merged s)"
  "pendingFollowUp (asked s) = pendingFollowUp (merged s)"
  "totalTaskGeneration (asked s) = totalTaskGeneration s"
  "maxStepsEvents (asked s) = maxStepsEvents s"
  by (simp_all add: asked_def)

subsection \<open>Guards and empty results\<close>

text \<open>
  Claim C10. \<open>sendFollowUpMessage\<close> called with an undefined or an empty question
  returns the state it was given: no frame is captured, no call is made, the follow-up
  busy-flag is not set and the history is not touched.
\<close>

theorem sendFollowUpMessage_without_question:
  "sendFollowUpMessage henv env None s = s \<and> sendFollowUpMessage henv env (Some []) s = s"
  by (simp add: sendFollowUpMessage_def)

theorem sendFollowUpMessage_without_question_witness:
  "sendFollowUpMessage regenerates scrollAction None afterClick = afterClick \<and>
   sendFollowUpMessage regenerates scrollAction (Some '''') afterClick = afterClick"
  using sendFollowUpMessage_without_question[of regenerates scrollAction afterClick]
  by simp

lemma previewPhase_empty: "previewPhase env [] s = Completed s"
  by (simp add: previewPhase_def requestsCoordinate_def)

lemma startDetectionPhase_empty: "startDetectionPhase [] s = s"
  by (simp add: startDetectionPhase_def)

lemma filter_nonempty_butlast:
  assumes "\<forall>item \<in> set ts. task_text item \<noteq> []"
  shows "filter (\<lambda>item. task_text item \<noteq> []) ts = ts"
    and "filter (\<lambda>item. task_text item \<noteq> []) (butlast ts) = butlast ts"
  using assms by (auto simp: filter_id_conv dest: in_set_butlastD)

text \<open>
  Claim C9. When \<open>generateAction\<close> resolves to a string that trims to empty, in a
  history whose items all have text, the cycle appends no item (the history is what it
  was, less the step a merged follow-up retracts), yet \<open>totalTaskGeneration\<close> and
  \<open>totalTaskCount\<close> are both incremented; so a step counter that was at least the
  history's length now exceeds it.
\<close>

theorem empty_action_counted_without_step:
  assumes "\<not> hasExceededMaxSteps s" and "\<not> isTriggering s"
    and "captureImageFromStream_result env = Resolves (img, ns)"
    and "generateAction_result env = Resolves a"
    and "trim a = []"
    and "\<forall>item \<in> set (tasks s). task_text item \<noteq> []"
  shows "tasks (triggerGenerateTaskDescription env s) =
           (if mergesFollowUp s then butlast (tasks s) else tasks s) \<and>
         totalTaskGeneration (triggerGenerateTaskDescription env s) = totalTaskGeneration s + 1 \<and>
         totalTaskCount (triggerGenerateTaskDescription env s) =
           (if mergesFollowUp s then totalTaskCount s - 1 else totalTaskCount s) + 1 \<and>
         (length (tasks s) \<le> totalTaskCount s \<longrightarrow>
            length (tasks (triggerGenerateTaskDescription env s)) <
              totalTaskCount (triggerGenerateTaskDescription env s))"
proof -
  have eq: "triggerGenerateTaskDescription env s =
      finallyBlock ((appendStep img [] (asked s))\<lparr>isLoadingPreviewImage := False\<rparr>)"
    using trigger_action_resolves[OF assms(1-4)]
    by (simp add: assms(5) previewPhase_empty startDetectionPhase_empty)
  show ?thesis
    unfolding eq using filter_nonempty_butlast[OF assms(6)]
    by auto
qed

theorem empty_action_counted_without_step_witness:
  "tasks (triggerGenerateTaskDescription blankAction afterClick) = [clickStep] \<and>
   totalTaskGeneration (triggerGenerateTaskDescription blankAction afterClick) = 2 \<and>
   totalTaskCount (triggerGenerateTaskDescription blankAction afterClick) = 2"
  using empty_action_counted_without_step[OF afterClick_ready(1,2),
          of blankAction "''frame2''" "''full2''" "''  ''"]
  by (simp add: afterClick_ready blankAction_def actionFails_def trim_def isWhiteSpace_def
        clickStep_def)

subsection \<open>Failed cycles\<close>

lemma trigger_flags:
  assumes "\<not> hasExceededMaxSteps s" and "\<not> isTriggering s"
  shows "\<not> isTriggering (triggerGenerateTaskDescription env s) \<and>
         \<not> isLoading (triggerGenerateTaskDescription env s) \<and>
         \<not> isLoadingPreviewImage (triggerGenerateTaskDescription env s)"
proof (cases "captureImageFromStream_result env")
  case Rejects
  then show ?thesis using trigger_capture_rejects[OF assms] by simp
next
  case (Resolves c)
  obtain img ns where c: "c = (img, ns)" by (cases c)
  show ?thesis
  proof (cases "generateAction_result env")
    case Rejects
    then show ?thesis using trigger_action_rejects[OF assms Resolves] by simp
  next
    case (Resolves a)
    show ?thesis
      using trigger_action_resolves[OF assms \<open>captureImageFromStream_result env = Resolves c\<close>[unfolded c] Resolves]
      by (simp split: Block.splits)
  qed
qed

lemma previewPhase_coordinate_rejects:
  assumes "requestsCoordinate txt" and "generateCoordinate_result env = Rejects"
  shows "previewPhase env txt s = Threw (logCall (GenerateCoordinate txt) s)"
  using assms by (simp add: previewPhase_def)

lemma previewPhase_snapshot_rejects:
  assumes "requestsCoordinate txt" and "generateCoordinate_result env = Resolves c"
    and "c \<noteq> []" and "coordinatePattern_test (trim c)"
    and "createCoordinateSnapshot_result env = Rejects"
  shows "previewPhase env txt s =
           Threw (logCall CreateCoordinateSnapshot (logCall (GenerateCoordinate txt) s))"
  using assms by (simp add: previewPhase_def)

text \<open>
  Claim C3, as stated, fails on the path it names. With one step in the history and a
  follow-up pending, \<open>generateAction\<close> rejects: the step was retracted before the call,
  and the history after the failed cycle is empty.
\<close>

theorem failed_cycle_history_counterexample:
  "generateAction_result actionFails = Rejects \<and>
   tasks revising = [clickStep] \<and>
   tasks (triggerGenerateTaskDescription actionFails revising) = []"
proof -
  have "triggerGenerateTaskDescription actionFails revising = finallyBlock (asked revising)"
    by (rule trigger_action_rejects[OF revising_ready(1,2)]) (simp_all add: actionFails_def)
  then have "tasks (triggerGenerateTaskDescription actionFails revising) = []"
    by (simp add: revising_ready)
  then show ?thesis by (simp add: revising_ready actionFails_def)
qed

text \<open>
  Claim C3, amended. A cycle that is not skipped always ends with its busy-flags reset,
  whichever call rejects. If the capture rejects, the history is the one before the
  cycle. If \<open>generateAction\<close> rejects, the history is the one before the cycle, except
  that a pending follow-up merged as revision context has already retracted the last
  step and been cleared. If \<open>generateCoordinate\<close> or \<open>createCoordinateSnapshot\<close>
  rejects, the step has been appended whole, without a preview.
\<close>

theorem failed_cycle_history:
  assumes "\<not> hasExceededMaxSteps s" and "\<not> isTriggering s"
  shows
    "\<not> isTriggering (triggerGenerateTaskDescription env s) \<and>
     \<not> isLoading (triggerGenerateTaskDescription env s) \<and>
     \<not> isLoadingPreviewImage (triggerGenerateTaskDescription env s) \<and>
     (captureImageFromStream_result env = Rejects \<longrightarrow>
        tasks (triggerGenerateTaskDescription env s) = tasks s) \<and>
     (\<forall>c. captureImageFromStream_result env = Resolves c \<and>
          generateAction_result env = Rejects \<longrightarrow>
        tasks (triggerGenerateTaskDescription env s) =
          (if mergesFollowUp s then butlast (tasks s) else tasks s) \<and>
        pendingFollowUp (triggerGenerateTaskDescription env s) =
          (if mergesFollowUp s then [] else pendingFollowUp s)) \<and>
     (\<forall>c a. captureImageFromStream_result env = Resolves c \<and>
          generateAction_result env = Resolves a \<and>
          requestsCoordinate (trim a) \<and>
          (generateCoordinate_result env = Rejects \<or>
           (\<exists>xy. generateCoordinate_result env = Resolves xy \<and> xy \<noteq> [] \<and>
                 coordinatePattern_test (trim xy) \<and>
                 createCoordinateSnapshot_result env = Rejects)) \<longrightarrow>
        tasks (triggerGenerateTaskDescription env s) =
          filter (\<lambda>item. task_text item \<noteq> [])
            ((if mergesFollowUp s then butlast (tasks s) else tasks s) @
             [\<lparr>task_text = trim a, previewImage = None, followUps = []\<rparr>]))"
proof (intro conjI allI impI)
  show "\<not> isTriggering (triggerGenerateTaskDescription env s)"
    "\<not> isLoading (triggerGenerateTaskDescription env s)"
    "\<not> isLoadingPreviewImage (triggerGenerateTaskDescription env s)"
    using trigger_flags[OF assms] by simp_all
next
  assume "captureImageFromStream_result env = Rejects"
  then show "tasks (triggerGenerateTaskDescription env s) = tasks s"
    using trigger_capture_rejects[OF assms] by simp
next
  fix c
  assume h: "captureImageFromStream_result env = Resolves c \<and> generateAction_result env = Rejects"
  then have eq: "triggerGenerateTaskDescription env s = finallyBlock (asked s)"
    using trigger_action_rejects[OF assms] by simp
  show "tasks (triggerGenerateTaskDescription env s) =
          (if mergesFollowUp s then butlast (tasks s) else tasks s)"
    unfolding eq by simp
  show "pendingFollowUp (triggerGenerateTaskDescription env s) =
          (if mergesFollowUp s then [] else pendingFollowUp s)"
    unfolding eq by simp
next
  fix c a
  assume h: "captureImageFromStream_result env = Resolves c \<and>
          generateAction_result env = Resolves a \<and>
          requestsCoordinate (trim a) \<and>
          (generateCoordinate_result env = Rejects \<or>
           (\<exists>xy. generateCoordinate_result env = Resolves xy \<and> xy \<noteq> [] \<and>
                 coordinatePattern_test (trim xy) \<and>
                 createCoordinateSnapshot_result env = Rejects))"
  obtain img ns where c: "c = (img, ns)" by (cases c)
  let ?s5 = "(appendStep img (trim a) (asked s))\<lparr>isLoadingPreviewImage := True\<rparr>"
  from h have "\<exists>s6. previewPhase env (trim a) ?s5 = Threw s6 \<and> tasks s6 = tasks ?s5"
    using previewPhase_coordinate_rejects[of "trim a" env ?s5]
          previewPhase_snapshot_rejects[of "trim a" env _ ?s5]
    by auto
  then obtain s6 where p: "previewPhase env (trim a) ?s5 = Threw s6" and t: "tasks s6 = tasks ?s5"
    by blast
  have "triggerGenerateTaskDescription env s = finallyBlock s6"
    using trigger_action_resolves[OF assms, of env img ns a] h c p by simp
  then show "tasks (triggerGenerateTaskDescription env s) =
          filter (\<lambda>item. task_text item \<noteq> [])
            ((if mergesFollowUp s then butlast (tasks s) else tasks s) @
             [\<lparr>task_text = trim a, previewImage = None, followUps = []\<rparr>])"
    using t by simp
qed

theorem failed_cycle_history_witness:
  "\<not> isTriggering (triggerGenerateTaskDescription actionFails revising) \<and>
   \<not> isLoading (triggerGenerateTaskDescription actionFails revising) \<and>
   tasks (triggerGenerateTaskDescription actionFails revising) = butlast (tasks revising) \<and>
   pendingFollowUp (triggerGenerateTaskDescription actionFails revising) = []"
  using failed_cycle_history[OF revising_ready(1,2), of actionFails]
  by (simp add: revising_ready actionFails_def)

subsection \<open>The regenerate sentinel\<close>

lemma last_update_last [simp]: "ts \<noteq> [] \<Longrightarrow> last (ts[length ts - Suc 0 := x]) = x"
  by (simp add: last_list_update)

lemma update_last_id [simp]: "ts \<noteq> [] \<Longrightarrow> ts[length ts - Suc 0 := last ts] = ts"
  by (simp add: last_conv_nth list_update_id)

lemma removeLast_add:
  "removeLastFollowUpFromCurrentTask (addFollowUpToCurrentTask fu s) = s"
proof (cases "tasks s = []")
  case True
  then show ?thesis
    by (simp add: removeLastFollowUpFromCurrentTask_def addFollowUpToCurrentTask_def)
next
  case False
  then show ?thesis
    by (simp add: removeLastFollowUpFromCurrentTask_def addFollowUpToCurrentTask_def Let_def
          )
qed

lemma update_add:
  "updateCurrentFollowUpAnswer a (addFollowUpToCurrentTask fu s) =
     addFollowUpToCurrentTask (fu\<lparr>answer := a\<rparr>) s"
proof (cases "tasks s = []")
  case True
  then show ?thesis
    by (simp add: updateCurrentFollowUpAnswer_def addFollowUpToCurrentTask_def)
next
  case False
  then show ?thesis
    by (simp add: updateCurrentFollowUpAnswer_def addFollowUpToCurrentTask_def Let_def)
qed

lemma streaming_step:
  assumes "streaming s0 st"
  shows "streaming s0 (onStreamedMessage q st m)"
proof -
  obtain s h r where st: "st = (s, h, r)" by (cases st)
  show ?thesis
  proof (cases h)
    case True
    then obtain fu where "s = addFollowUpToCurrentTask fu s0"
      using assms st by (auto simp: streaming_def)
    then show ?thesis
      using True st by (auto simp: streaming_def removeLast_add update_add)
  next
    case False
    then have "s = s0" using assms st by (simp add: streaming_def)
    then show ?thesis
      using False st by (auto simp: streaming_def)
  qed
qed

lemma streaming_foldl:
  "streaming s0 st \<Longrightarrow> streaming s0 (foldl (onStreamedMessage q) st ms)"
  by (induction ms arbitrary: st) (simp_all add: streaming_step)

lemma streaming_retract:
  assumes "streaming s0 (s, h, r)"
  shows "(if h then removeLastFollowUpFromCurrentTask s else s) = s0"
  using assms by (auto simp: streaming_def removeLast_add)

lemma onStreamedMessage_prefix:
  "startsWith ''Regenerate'' m \<Longrightarrow> onStreamedMessage q st m = st"
  by (cases st) simp

lemma foldl_prefixes:
  "\<forall>m \<in> set ms. startsWith ''Regenerate'' m \<Longrightarrow> foldl (onStreamedMessage q) st ms = st"
  by (induction ms arbitrary: st) (simp_all add: onStreamedMessage_prefix)

text \<open>
  Claim C5. A streamed payload that is a prefix of "Regenerate" leaves the state and
  the callback's locals as they were, and so does any sequence of such payloads: no
  follow-up is created from them. When the final text trims to "Regenerate", whatever
  was streamed before, \<open>sendFollowUpMessage\<close> ends as
  \<open>triggerGenerateTaskDescription\<close> run on the state it started from with the question
  stashed as the pending follow-up and the follow-up busy-flag cleared: a follow-up
  added while streaming has been removed, and the question is not answered in place.
\<close>

theorem regenerate_sentinel:
  "(startsWith ''Regenerate'' m \<longrightarrow> onStreamedMessage q st m = st) \<and>
   ((\<forall>m \<in> set ms. startsWith ''Regenerate'' m) \<longrightarrow>
      foldl (onStreamedMessage q) st ms = st) \<and>
   (q \<noteq> [] \<and> help_captureImageFromStream_result henv = Resolves c \<and>
    generateHelpResponse_result henv = Resolves txt \<and> trim txt = ''Regenerate'' \<longrightarrow>
      sendFollowUpMessage henv env (Some q) s =
        triggerGenerateTaskDescription env
          (s\<lparr>calls := calls s @ [TrackFollowupQuestionAsked q, CaptureImageFromStream,
                                  GenerateHelpResponse q (currentTaskText s)],
             pendingFollowUp := q,
             isLoadingFollowUp := False\<rparr>))"
proof (intro conjI impI)
  assume "startsWith ''Regenerate'' m"
  then show "onStreamedMessage q st m = st" by (rule onStreamedMessage_prefix)
next
  assume "\<forall>m \<in> set ms. startsWith ''Regenerate'' m"
  then show "foldl (onStreamedMessage q) st ms = st" by (rule foldl_prefixes)
next
  assume h: "q \<noteq> [] \<and> help_captureImageFromStream_result henv = Resolves c \<and>
    generateHelpResponse_result henv = Resolves txt \<and> trim txt = ''Regenerate''"
  obtain img ns where c: "c = (img, ns)" by (cases c)
  let ?s1 = "logCall CaptureImageFromStream
               ((logCall (TrackFollowupQuestionAsked q) s)\<lparr>isLoadingFollowUp := True\<rparr>)"
  let ?s2 = "logCall (GenerateHelpResponse q (currentTaskText ?s1)) ?s1"
  obtain s3 hasAdded isRegen
    where f: "foldl (onStreamedMessage q) (?s2, False, False) (streamedMessages henv) =
              (s3, hasAdded, isRegen)"
    by (cases "foldl (onStreamedMessage q) (?s2, False, False) (streamedMessages henv)")
  have "streaming ?s2 (?s2, False, False)" by (simp add: streaming_def)
  then have "streaming ?s2 (s3, hasAdded, isRegen)"
    using streaming_foldl[of ?s2 "(?s2, False, False)" q "streamedMessages henv"] f by simp
  then have r: "(if hasAdded then removeLastFollowUpFromCurrentTask s3 else s3) = ?s2"
    by (rule streaming_retract)
  have "sendFollowUpMessage henv env (Some q) s =
        triggerGenerateTaskDescription env
          ((if hasAdded then removeLastFollowUpFromCurrentTask s3 else s3)
             \<lparr>pendingFollowUp := q, isLoadingFollowUp := False\<rparr>)"
    using h c f by (simp add: sendFollowUpMessage_def Let_def)
  also have "(if hasAdded then removeLastFollowUpFromCurrentTask s3 else s3)
               \<lparr>pendingFollowUp := q, isLoadingFollowUp := False\<rparr> =
             s\<lparr>calls := calls s @ [TrackFollowupQuestionAsked q, CaptureImageFromStream,
                                  GenerateHelpResponse q (currentTaskText s)],
             pendingFollowUp := q,
             isLoadingFollowUp := False\<rparr>"
    unfolding r by (simp add: logCall_def currentTaskText_def)
  finally show "sendFollowUpMessage henv env (Some q) s =
        triggerGenerateTaskDescription env
          (s\<lparr>calls := calls s @ [TrackFollowupQuestionAsked q, CaptureImageFromStream,
                                  GenerateHelpResponse q (currentTaskText s)],
             pendingFollowUp := q,
             isLoadingFollowUp := False\<rparr>)" .
qed

theorem regenerate_sentinel_witness:
  "onStreamedMessage ''Where is it?'' (afterClick, False, False) ''Regen'' =
     (afterClick, False, False) \<and>
   foldl (onStreamedMessage ''Where is it?'') (afterClick, False, False)
     [''Reg'', ''Regen'', ''Regenerate''] = (afterClick, False, False) \<and>
   sendFollowUpMessage regenerates scrollAction (Some ''Where is it?'') afterClick =
     triggerGenerateTaskDescription scrollAction
       (afterClick\<lparr>calls := calls afterClick @
            [TrackFollowupQuestionAsked ''Where is it?'', CaptureImageFromStream,
             GenerateHelpResponse ''Where is it?'' (currentTaskText afterClick)],
          pendingFollowUp := ''Where is it?'',
          isLoadingFollowUp := False\<rparr>)"
  using regenerate_sentinel[of "''Regen''" "''Where is it?''" "(afterClick, False, False)"
          "[''Reg'', ''Regen'', ''Regenerate'']" regenerates "(''frame3'', ''full3'')"
          "''Regenerate''" scrollAction afterClick]
  by (simp add: startsWith_def regenerates_def trim_def isWhiteSpace_def)

subsection \<open>The step ceiling\<close>

lemma trigger_counts: "countsAtMostOne s (triggerGenerateTaskDescription env s)"
proof (cases "hasExceededMaxSteps s \<or> isTriggering s")
  case True
  then show ?thesis by (simp add: trigger_skipped countsAtMostOne_def)
next
  case False
  then have a: "\<not> hasExceededMaxSteps s" "\<not> isTriggering s" by simp_all
  then have lt: "totalTaskGeneration s < MAX_STEPS" by (simp add: hasExceededMaxSteps_def)
  show ?thesis
  proof (cases "captureImageFromStream_result env")
    case Rejects
    then show ?thesis using trigger_capture_rejects[OF a] by (simp add: countsAtMostOne_def)
  next
    case (Resolves c)
    obtain img ns where c: "c = (img, ns)" by (cases c)
    show ?thesis
    proof (cases "generateAction_result env")
      case Rejects
      then show ?thesis
        using trigger_action_rejects[OF a Resolves] by (simp add: countsAtMostOne_def)
    next
      case act: (Resolves action)
      let ?s5 = "(appendStep img (trim action) (asked s))\<lparr>isLoadingPreviewImage := True\<rparr>"
      note eq = trigger_action_resolves[OF a Resolves[unfolded c] act]
      show ?thesis
      proof (cases "previewPhase env (trim action) ?s5")
        case (Threw s6)
        then have "sameButTasksCalls ?s5 s6" by (simp add: previewPhase_Threw)
        then show ?thesis using eq Threw lt
          by (simp add: countsAtMostOne_def sameButTasksCalls_def)
      next
        case (Completed s6)
        then have "sameButTasksCalls ?s5 s6" by (simp add: previewPhase_Completed)
        then show ?thesis using eq Completed lt
          by (simp add: countsAtMostOne_def sameButTasksCalls_def)
      qed
    qed
  qed
qed

lemma countsAtMostOne_pre:
  assumes "totalTaskGeneration s0 = totalTaskGeneration s"
    and "maxStepsEvents s0 = maxStepsEvents s"
    and "countsAtMostOne s0 s'"
  shows "countsAtMostOne s s'"
  using assms by (simp add: countsAtMostOne_def)

lemma followUp_fields [simp]:
  "totalTaskGeneration (addFollowUpToCurrentTask fu s) = totalTaskGeneration s"
  "maxStepsEvents (addFollowUpToCurrentTask fu s) = maxStepsEvents s"
  "totalTaskGeneration (removeLastFollowUpFromCurrentTask s) = totalTaskGeneration s"
  "maxStepsEvents (removeLastFollowUpFromCurrentTask s) = maxStepsEvents s"
  "totalTaskGeneration (updateCurrentFollowUpAnswer a s) = totalTaskGeneration s"
  "maxStepsEvents (updateCurrentFollowUpAnswer a s) = maxStepsEvents s"
  by (simp_all add: addFollowUpToCurrentTask_def removeLastFollowUpFromCurrentTask_def
        updateCurrentFollowUpAnswer_def Let_def)

lemma onStreamedMessage_counts:
  "totalTaskGeneration (fst (onStreamedMessage q st m)) = totalTaskGeneration (fst st) \<and>
   maxStepsEvents (fst (onStreamedMessage q st m)) = maxStepsEvents (fst st)"
  by (cases st) simp

lemma foldl_onStreamedMessage_counts:
  "totalTaskGeneration (fst (foldl (onStreamedMessage q) st ms)) = totalTaskGeneration (fst st) \<and>
   maxStepsEvents (fst (foldl (onStreamedMessage q) st ms)) = maxStepsEvents (fst st)"
  by (induction ms arbitrary: st) (simp_all add: onStreamedMessage_counts)

lemma sendFollowUpMessage_counts: "countsAtMostOne s (sendFollowUpMessage henv env q' s)"
proof (cases q')
  case None
  then show ?thesis by (simp add: sendFollowUpMessage_def countsAtMostOne_def)
next
  case (Some q)
  show ?thesis
  proof (cases "q = []")
    case True
    then show ?thesis using Some by (simp add: sendFollowUpMessage_def countsAtMostOne_def)
  next
    case False
    let ?s1 = "logCall CaptureImageFromStream
               ((logCall (TrackFollowupQuestionAsked q) s)\<lparr>isLoadingFollowUp := True\<rparr>)"
    show ?thesis
    proof (cases "help_captureImageFromStream_result henv")
      case Rejects
      then show ?thesis using Some False
        by (simp add: sendFollowUpMessage_def countsAtMostOne_def)
    next
      case (Resolves c)
      obtain img ns where c: "c = (img, ns)" by (cases c)
      let ?s2 = "logCall (GenerateHelpResponse q (currentTaskText ?s1)) ?s1"
      obtain s3 h r where f: "foldl (onStreamedMessage q) (?s2, False, False)
          (streamedMessages henv) = (s3, h, r)"
        by (cases "foldl (onStreamedMessage q) (?s2, False, False) (streamedMessages henv)")
      have s3: "totalTaskGeneration s3 = totalTaskGeneration s"
               "maxStepsEvents s3 = maxStepsEvents s"
        using foldl_onStreamedMessage_counts[of q "(?s2, False, False)" "streamedMessages henv"] f
        by simp_all
      show ?thesis
      proof (cases "generateHelpResponse_result henv")
        case Rejects
        then show ?thesis using Some False Resolves c f s3
          by (simp add: sendFollowUpMessage_def countsAtMostOne_def Let_def)
      next
        case res: (Resolves reply)
        show ?thesis
        proof (cases "trim reply = ''Regenerate''")
          case True
          let ?s4 = "(if h then removeLastFollowUpFromCurrentTask s3 else s3)
                       \<lparr>pendingFollowUp := q, isLoadingFollowUp := False\<rparr>"
          have "sendFollowUpMessage henv env q' s = triggerGenerateTaskDescription env ?s4"
            using Some False Resolves c f res True
            by (simp add: sendFollowUpMessage_def Let_def)
          moreover have "countsAtMostOne s (triggerGenerateTaskDescription env ?s4)"
            by (rule countsAtMostOne_pre[OF _ _ trigger_counts]) (simp_all add: s3)
          ultimately show ?thesis by simp
        next
          case False2: False
          then show ?thesis using Some False Resolves c f res s3
            by (simp add: sendFollowUpMessage_def countsAtMostOne_def Let_def)
        qed
      qed
    qed
  qed
qed

lemma operate_counts: "countsAtMostOne s (operate op s)"
proof (cases op)
  case (OnNextTask env)
  then show ?thesis using trigger_counts[of s env]
    by (simp add: onNextTask_def) (simp add: countsAtMostOne_def)
next
  case (OnRefreshTask env)
  let ?s = "if tasks s \<noteq> []
            then s\<lparr>tasks := butlast (tasks s), totalTaskCount := totalTaskCount s - 1\<rparr> else s"
  have "countsAtMostOne s (triggerGenerateTaskDescription env ?s)"
    by (rule countsAtMostOne_pre[OF _ _ trigger_counts]) simp_all
  then show ?thesis using OnRefreshTask
    by (simp add: onRefreshTask_def) (simp add: countsAtMostOne_def)
next
  case (TriggerFirstTask env)
  then show ?thesis using trigger_counts[of s env]
    by (simp add: triggerFirstTask_def) (simp add: countsAtMostOne_def)
next
  case (SendFollowUpMessage henv env q)
  then show ?thesis using sendFollowUpMessage_counts by simp
qed

lemma render_events:
  "maxStepsEvents (render s op) =
     maxStepsEvents s +
       (if totalTaskGeneration (operate op s) = MAX_STEPS \<and> totalTaskGeneration s \<noteq> MAX_STEPS
        then 1 else 0)"
  using operate_counts[of s op]
  by (auto simp: render_def maxStepsEffect_def countsAtMostOne_def hasExceededMaxSteps_def)

lemma render_generation:
  "totalTaskGeneration (render s op) = totalTaskGeneration (operate op s)"
  by (simp add: render_def maxStepsEffect_def)

lemma render_ceilingKept: "ceilingKept s \<Longrightarrow> ceilingKept (render s op)"
  using operate_counts[of s op]
  by (auto simp: ceilingKept_def render_events render_generation countsAtMostOne_def)

lemma operations_ceilingKept: "ceilingKept s \<Longrightarrow> ceilingKept (operations s ops)"
  unfolding operations_def
  by (induction ops arbitrary: s) (simp_all add: render_ceilingKept)

lemma exceeded_noop:
  assumes "hasExceededMaxSteps s"
  shows "onNextTask env s = s" "onRefreshTask env s = s" "triggerFirstTask env s = s"
    "render s (OnNextTask env) = s" "render s (OnRefreshTask env) = s"
    "render s (TriggerFirstTask env) = s"
  using assms
  by (simp_all add: onNextTask_def onRefreshTask_def triggerFirstTask_def render_def
        maxStepsEffect_def)

text \<open>
  Claim C4. Once \<open>totalTaskGeneration\<close> has reached 150, \<open>onNextTask\<close>,
  \<open>onRefreshTask\<close> and \<open>triggerFirstTask\<close> return the state they were given (nothing is
  captured, called, appended or counted), and the render after them reports nothing. A
  render reports the ceiling exactly when its operation moved the counter to 150. From
  a state below the ceiling with nothing reported, every run of operations keeps the
  counter at or below 150 and has reported the ceiling once if the counter has reached
  it, and never otherwise.
\<close>

theorem step_ceiling:
  "(hasExceededMaxSteps s \<longrightarrow>
      onNextTask env s = s \<and> onRefreshTask env s = s \<and> triggerFirstTask env s = s \<and>
      render s (OnNextTask env) = s \<and> render s (OnRefreshTask env) = s \<and>
      render s (TriggerFirstTask env) = s) \<and>
   maxStepsEvents (render s op) =
     maxStepsEvents s +
       (if totalTaskGeneration (render s op) = MAX_STEPS \<and> totalTaskGeneration s \<noteq> MAX_STEPS
        then 1 else 0) \<and>
   (totalTaskGeneration s < MAX_STEPS \<and> maxStepsEvents s = 0 \<longrightarrow>
      totalTaskGeneration (operations s ops) \<le> MAX_STEPS \<and>
      maxStepsEvents (operations s ops) =
        (if hasExceededMaxSteps (operations s ops) then 1 else 0))"
proof (intro conjI impI)
  assume "totalTaskGeneration s < MAX_STEPS \<and> maxStepsEvents s = 0"
  then have "ceilingKept s" by (simp add: ceilingKept_def)
  then have k: "ceilingKept (operations s ops)" by (rule operations_ceilingKept)
  then show "totalTaskGeneration (operations s ops) \<le> MAX_STEPS"
    by (simp add: ceilingKept_def)
  from k show "maxStepsEvents (operations s ops) =
        (if hasExceededMaxSteps (operations s ops) then 1 else 0)"
    by (auto simp: ceilingKept_def hasExceededMaxSteps_def)
qed (simp_all add: exceeded_noop render_events render_generation)

lemma nearCeiling_run:
  "totalTaskGeneration (operations nearCeiling
      [OnNextTask scrollAction, OnNextTask scrollAction, OnRefreshTask scrollAction]) = 150"
  by code_simp

theorem step_ceiling_witness:
  "onNextTask scrollAction atCeiling = atCeiling \<and>
   onRefreshTask scrollAction atCeiling = atCeiling \<and>
   triggerFirstTask scrollAction atCeiling = atCeiling \<and>
   totalTaskGeneration (operations nearCeiling
      [OnNextTask scrollAction, OnNextTask scrollAction, OnRefreshTask scrollAction]) = 150 \<and>
   maxStepsEvents (operations nearCeiling
      [OnNextTask scrollAction, OnNextTask scrollAction, OnRefreshTask scrollAction]) = 1"
  using step_ceiling[of atCeiling scrollAction "OnNextTask scrollAction" "[]"]
        step_ceiling[of nearCeiling scrollAction "OnNextTask scrollAction"
          "[OnNextTask scrollAction, OnNextTask scrollAction, OnRefreshTask scrollAction]"]
        nearCeiling_run
  by (simp add: hasExceededMaxSteps_def MAX_STEPS_def atCeiling_def nearCeiling_def
        afterClick_def maxStepsEvents_def)

end
